theory Spec2Isabelle
  imports Main
begin

section \<open>Strings and paths\<close>

text \<open>
  JavaScript strings are modelled as \<^typ>\<open>string\<close>. \<open>String.prototype.toLowerCase\<close> is
  modelled on the ASCII letters; no character outside \<open>A-Z\<close> lowercases to one of the
  letters of \<open>.gif\<close>, so the comparison with \<open>".gif"\<close> is not affected.
\<close>

definition lower_char :: "char \<Rightarrow> char" where
  "lower_char c =
     (case map_of (zip ''ABCDEFGHIJKLMNOPQRSTUVWXYZ'' ''abcdefghijklmnopqrstuvwxyz'') c of
        Some l \<Rightarrow> l
      | None \<Rightarrow> c)"

definition toLowerCase :: "string \<Rightarrow> string" where
  "toLowerCase s = map lower_char s"

definition slash :: char where
  "slash = CHR ''/''"

definition dot :: char where
  "dot = CHR ''.''"

text \<open>
  The path functions of Node (POSIX flavour). The last component of a path is what
  follows the last separator once trailing separators are dropped.
\<close>

definition last_component :: "string \<Rightarrow> string" where
  "last_component p =
     rev (takeWhile (\<lambda>c. c \<noteq> slash) (dropWhile (\<lambda>c. c = slash) (rev p)))"

text \<open>
  \<open>path.extname\<close>: from the last dot of the last component to its end; empty when the
  component has no dot, when the last dot is its first character, and for \<open>..\<close>.
\<close>

definition extname :: "string \<Rightarrow> string" where
  "extname p =
     (let comp = last_component p;
          ext_rev = takeWhile (\<lambda>c. c \<noteq> dot) (rev comp);
          stem_rev = drop (Suc (length ext_rev)) (rev comp)
      in if dot \<notin> set comp \<or> stem_rev = [] \<or> comp = [dot, dot] then []
         else dot # rev ext_rev)"

text \<open>
  \<open>path.basename(p, suffix)\<close>, for a suffix no longer than the last component (the
  script passes the lowercased \<open>extname\<close> of the same path): the last component, with the
  suffix removed when the component ends with it and is more than the suffix. The
  comparison is by character code, that is, case-sensitive.
\<close>

definition ends_with :: "string \<Rightarrow> string \<Rightarrow> bool" where
  "ends_with s suf = (length suf \<le> length s \<and> drop (length s - length suf) s = suf)"

definition basename_suffix :: "string \<Rightarrow> string \<Rightarrow> string" where
  "basename_suffix p suf =
     (let comp = last_component p
      in if suf = [] \<or> length p < length suf then comp
         else if suf = p then []
         else if ends_with comp suf \<and> comp \<noteq> suf
           then take (length comp - length suf) comp
         else comp)"

text \<open>\<open>path.join(dir, name)\<close> for a normalised directory and a plain file name.\<close>

definition path_join :: "string \<Rightarrow> string \<Rightarrow> string" where
  "path_join dir name = dir @ [slash] @ name"

text \<open>\<open>s.replace(/\\/g, "/")\<close>\<close>

definition replace_backslashes :: "string \<Rightarrow> string" where
  "replace_backslashes s = map (\<lambda>c. if c = CHR 0x5C then slash else c) s"

section \<open>The gallery script: year of an item\<close>

text \<open>\<open>s.split("/")\<close>: the pieces between separators; never the empty list.\<close>

fun split_slash :: "string \<Rightarrow> string list" where
  "split_slash [] = [[]]"
| "split_slash (c # cs) =
     (if c = slash then [] # split_slash cs
      else (case split_slash cs of
              [] \<Rightarrow> [[c]]
            | w # ws \<Rightarrow> (c # w) # ws))"

text \<open>\<open>function basename(p = "") { return String(p).split("/").pop() || ""; }\<close>\<close>

definition basename :: "string \<Rightarrow> string" where
  "basename p = last (split_slash p)"

definition is_digit :: "char \<Rightarrow> bool" where
  "is_digit c = (c \<in> set ''0123456789'')"

definition is_year_sep :: "char \<Rightarrow> bool" where
  "is_year_sep c = (c = CHR ''-'' \<or> c = CHR ''_'' \<or> c = dot)"

text \<open>\<open>name.match(/^(\d{4})[-_.]/)\<close>, returning the first group of the match.\<close>

fun match_year :: "string \<Rightarrow> string option" where
  "match_year (a # b # c # d # s # rest) =
     (if is_digit a \<and> is_digit b \<and> is_digit c \<and> is_digit d \<and> is_year_sep s
      then Some [a, b, c, d] else None)"
| "match_year _ = None"

text \<open>
  An item of the manifest as the gallery reads it: \<open>item?.original || ""\<close> is the empty
  string when the item or its \<open>original\<close> field is missing.
\<close>

definition yearFromItem :: "string option \<Rightarrow> string option" where
  "yearFromItem item_original =
     (let name = basename (case item_original of None \<Rightarrow> [] | Some p \<Rightarrow> p)
      in match_year name)"

text \<open>The year of a file name in the words of the specification.\<close>

definition spec_year :: "string \<Rightarrow> string option" where
  "spec_year name =
     (if 5 \<le> length name \<and> list_all is_digit (take 4 name) \<and> is_year_sep (name ! 4)
      then Some (take 4 name) else None)"

section \<open>The build script: classification\<close>

datatype kind = Static | Animated

text \<open>
  \<open>gifs = files.filter(f => path.extname(f).toLowerCase() === ".gif")\<close> and its
  complement \<open>statics\<close>; \<open>orderedFiles = [...statics, ...gifs]\<close>.
\<close>

definition is_gif :: "string \<Rightarrow> bool" where
  "is_gif f = (toLowerCase (extname f) = ''.gif'')"

definition classify :: "string \<Rightarrow> kind" where
  "classify f = (if is_gif f then Animated else Static)"

definition gifs :: "string list \<Rightarrow> string list" where
  "gifs files = filter (\<lambda>f. toLowerCase (extname f) = ''.gif'') files"

definition statics :: "string list \<Rightarrow> string list" where
  "statics files = filter (\<lambda>f. toLowerCase (extname f) \<noteq> ''.gif'') files"

definition orderedFiles :: "string list \<Rightarrow> string list" where
  "orderedFiles files = statics files @ gifs files"

section \<open>The build script: external commands\<close>

text \<open>
  How a child process behaves: it runs for some milliseconds and exits with a status,
  its standard output and its standard error; or it cannot be started at all (the
  program is not in \<open>PATH\<close>); or it never exits.
\<close>

datatype proc =
    Exits nat int string string
  | SpawnError
  | Hangs string string

record spawn_opts =
  encoding :: "string option"
  timeout :: "nat option"

record spawn_result =
  res_status :: "int option"
  res_stdout :: "string option"
  res_stderr :: "string option"

text \<open>
  \<open>child_process.spawnSync\<close> blocks until the child has exited. With a positive
  \<open>timeout\<close> option the child is killed once it has run that long, and the result has a
  null status. A child that could not be started gives null status, stdout and stderr.
  \<open>None\<close> is a call that never returns.
\<close>

definition spawnSync :: "proc \<Rightarrow> spawn_opts \<Rightarrow> spawn_result option" where
  "spawnSync p opts =
     (let budget = (case timeout opts of None \<Rightarrow> None
                    | Some t \<Rightarrow> if 0 < t then Some t else None);
          killed = (\<lambda>out err. \<lparr>res_status = None, res_stdout = Some out, res_stderr = Some err\<rparr>)
      in case p of
           SpawnError \<Rightarrow> Some \<lparr>res_status = None, res_stdout = None, res_stderr = None\<rparr>
         | Exits ms st out err \<Rightarrow>
             (case budget of
                None \<Rightarrow> Some \<lparr>res_status = Some st, res_stdout = Some out, res_stderr = Some err\<rparr>
              | Some t \<Rightarrow>
                  if t < ms then Some (killed out err)
                  else Some \<lparr>res_status = Some st, res_stdout = Some out, res_stderr = Some err\<rparr>)
         | Hangs out err \<Rightarrow>
             (case budget of None \<Rightarrow> None | Some t \<Rightarrow> Some (killed out err)))"

text \<open>
  What the script runs in: the behaviour of each command line, whether an encode of
  the image library to a destination succeeds, whether a file copy succeeds, and
  \<open>path.relative(".", p)\<close>.
\<close>

record env =
  spawn :: "string \<Rightarrow> string list \<Rightarrow> proc"
  sharp_ok :: "string \<Rightarrow> string \<Rightarrow> bool"
  copy_ok :: "string \<Rightarrow> string \<Rightarrow> bool"
  relative :: "string \<Rightarrow> string"

definition srcDir :: string where "srcDir = ''images''"
definition outDir :: string where "outDir = ''images-optimized''"
definition thumbDir :: string where "thumbDir = ''images-thumbs''"
definition indexFile :: string where "indexFile = ''index.json''"

definition MAX_FFMPEG_MS :: nat where
  "MAX_FFMPEG_MS = 90000"

record cmd_result =
  ok :: bool
  stdout :: "string option"
  stderr :: "string option"
  code :: "int option"

text \<open>
  \<open>function runCmd(cmd, args) { const res = spawnSync(cmd, args, { encoding: "utf8" }); ... }\<close>
  The function has two parameters: a third argument of a call (\<open>extra\<close>) is not read.
\<close>

definition runCmd :: "env \<Rightarrow> string \<Rightarrow> string list \<Rightarrow> spawn_opts option \<Rightarrow> cmd_result option" where
  "runCmd env cmd args extra =
     (case spawnSync (spawn env cmd args) \<lparr>encoding = Some ''utf8'', timeout = None\<rparr> of
        None \<Rightarrow> None
      | Some res \<Rightarrow>
          Some \<lparr>ok = (res_status res = Some 0), stdout = res_stdout res,
                stderr = res_stderr res, code = res_status res\<rparr>)"

section \<open>The build script: manifest, disk and console\<close>

text \<open>
  A manifest entry. \<open>optimized\<close> and \<open>thumbnail\<close> are \<open>{ webm }\<close> for a GIF and
  \<open>{ webp, jpg }\<close> for a static image.
\<close>

datatype variants = WebmOnly string | WebpJpg string string

record entry =
  original :: string
  optimized :: variants
  thumbnail :: variants
  format :: string

fun variant_paths :: "variants \<Rightarrow> string list" where
  "variant_paths (WebmOnly w) = [w]"
| "variant_paths (WebpJpg w j) = [w, j]"

text \<open>The options of the image library the script uses.\<close>

record resize_opts =
  width :: "nat option"
  height :: "nat option"
  cover_centre :: bool
  withoutEnlargement :: bool

datatype encoding_opts = Webp nat | Jpeg nat bool

text \<open>
  What a file on disk holds, by where it came from: the output of an encoder command
  line, an image written by the image library from a source, a copy of a file, or the
  serialised manifest.
\<close>

datatype content =
    FfmpegOutput "string list"
  | SharpOutput string resize_opts encoding_opts
  | CopyOf string
  | ManifestJson "entry list"

datatype level = Info | Warn | Error

datatype exn = TypeError | SharpError string | CopyError string

text \<open>
  What the run does to the outside, in order. Console output is recorded by level and
  message, without interpolated counts; \<open>Processing f\<close> is the line
  \<open>console.log(`Processing: ${file}`)\<close> that opens an iteration, and \<open>Caught f err\<close> the
  \<open>console.error\<close> of its \<open>catch\<close>.
\<close>

datatype event =
    Mkdir string
  | Spawned string "string list"
  | ToFile string string bool
  | CopyFile string string bool
  | WriteFile string
  | Log level string
  | Processing string
  | Caught string exn

text \<open>
  The state of a run: the regular files on disk, the manifest entries collected so far,
  and the trace. Directories are not part of \<open>disk\<close>: the two that the script makes
  (\<open>fs.mkdirSync(outDir)\<close>, \<open>fs.mkdirSync(thumbDir)\<close>, before anything else) are the \<open>Mkdir\<close>
  events of the trace.
\<close>

record state =
  disk :: "string \<Rightarrow> content option"
  indexData :: "entry list"
  trace :: "event list"

definition emit :: "event \<Rightarrow> state \<Rightarrow> state" where
  "emit e st = st\<lparr>trace := trace st @ [e]\<rparr>"

definition log :: "level \<Rightarrow> string \<Rightarrow> state \<Rightarrow> state" where
  "log l m st = emit (Log l m) st"

definition put_file :: "string \<Rightarrow> content \<Rightarrow> state \<Rightarrow> state" where
  "put_file p c st = st\<lparr>disk := (disk st)(p \<mapsto> c)\<rparr>"

definition push :: "entry \<Rightarrow> state \<Rightarrow> state" where
  "push e st = st\<lparr>indexData := indexData st @ [e]\<rparr>"

text \<open>\<open>path.relative(".", p).replace(/\\/g, "/")\<close>\<close>

definition portable :: "env \<Rightarrow> string \<Rightarrow> string" where
  "portable env p = replace_backslashes (relative env p)"

section \<open>The build script: GIF branch\<close>

definition scale_filter :: string where
  "scale_filter = ''fps=30,scale='min(1280,iw)':-2:flags=lanczos''"

definition vp9_args :: "string \<Rightarrow> string \<Rightarrow> string list" where
  "vp9_args file outp =
     [''-y'', ''-hide_banner'', ''-i'', file, ''-vf'', scale_filter,
      ''-pix_fmt'', ''yuv420p'', ''-c:v'', ''libvpx-vp9'', ''-deadline'', ''good'',
      ''-cpu-used'', ''4'', ''-row-mt'', ''1'', ''-b:v'', ''0'', ''-crf'', ''35'',
      ''-auto-alt-ref'', ''0'', ''-an'', outp]"

definition vp8_args :: "string \<Rightarrow> string \<Rightarrow> string list" where
  "vp8_args file outp =
     [''-y'', ''-hide_banner'', ''-i'', file, ''-vf'', scale_filter,
      ''-pix_fmt'', ''yuv420p'', ''-c:v'', ''libvpx'', ''-b:v'', ''0'', ''-crf'', ''30'',
      ''-an'', outp]"

definition thumb_args :: "string \<Rightarrow> string \<Rightarrow> string list" where
  "thumb_args file outp =
     [''-y'', ''-hide_banner'', ''-i'', file, ''-vf'', scale_filter, ''-vf'',
      ''fps=15,scale=480:480:force_original_aspect_ratio=increase,crop=480:480,setsar=1'',
      ''-t'', ''3'', ''-pix_fmt'', ''yuv420p'', ''-c:v'', ''libvpx'', ''-deadline'', ''good'',
      ''-cpu-used'', ''4'', ''-b:v'', ''0'', ''-crf'', ''40'', ''-an'', outp]"

text \<open>
  \<open>runCmd("ffmpeg", args, { timeout: MAX_FFMPEG_MS })\<close> for an encode whose last argument
  is the output file: the encoder writes that file exactly when it exits with status 0.
\<close>

definition ffmpeg :: "env \<Rightarrow> string list \<Rightarrow> string \<Rightarrow> state \<Rightarrow> (cmd_result \<times> state) option" where
  "ffmpeg env args outp st =
     (case runCmd env ''ffmpeg'' args (Some \<lparr>encoding = None, timeout = Some MAX_FFMPEG_MS\<rparr>) of
        None \<Rightarrow> None
      | Some r \<Rightarrow>
          Some (r, (if ok r then put_file outp (FfmpegOutput args) else id)
                     (emit (Spawned ''ffmpeg'' args) st)))"

text \<open>\<open>fs.copyFileSync(src, dst)\<close>: throws when the copy fails.\<close>

definition copyFileSync :: "env \<Rightarrow> string \<Rightarrow> string \<Rightarrow> state \<Rightarrow> exn option \<times> state" where
  "copyFileSync env src dst st =
     (if copy_ok env src dst
      then (None, put_file dst (CopyOf src) (emit (CopyFile src dst True) st))
      else (Some (CopyError dst), emit (CopyFile src dst False) st))"

definition gif_entry :: "env \<Rightarrow> string \<Rightarrow> string \<Rightarrow> entry" where
  "gif_entry env file base =
     \<lparr>original = portable env file,
      optimized = WebmOnly (portable env (path_join outDir (base @ ''.webm''))),
      thumbnail = WebmOnly (portable env (path_join thumbDir (base @ ''.webm''))),
      format = ''webm''\<rparr>"

text \<open>
  The body of the loop for a GIF, in its three stages. The result of a stage is \<open>None\<close>
  when an encoder call never returns. \<open>r.stderr.slice(0, n)\<close> throws a \<open>TypeError\<close> when
  \<open>r.stderr\<close> is null.

  The full rendition: the first profile, and the second one when the first fails.
\<close>

definition encode_full :: "env \<Rightarrow> string \<Rightarrow> string \<Rightarrow> state \<Rightarrow> (cmd_result \<times> state) option" where
  "encode_full env file outp st =
     (case ffmpeg env (vp9_args file outp) outp st of
        None \<Rightarrow> None
      | Some (r9, st1) \<Rightarrow>
          if \<not> ok r9
          then ffmpeg env (vp8_args file outp) outp (log Warn ''VP9 failed, retrying with VP8...'' st1)
          else Some (r9, st1))"

text \<open>\<open>if (!r.ok) { ... fs.copyFileSync(file, path.join(outDir, `${base}.gif`)); ...; continue; }\<close>\<close>

definition fallback_copy :: "env \<Rightarrow> string \<Rightarrow> string \<Rightarrow> cmd_result \<Rightarrow> state \<Rightarrow> exn option \<times> state" where
  "fallback_copy env file base r st =
     (let st1 = log Error (''FFmpeg failed for '' @ file) st
      in case stderr r of
           None \<Rightarrow> (Some TypeError, st1)
         | Some e \<Rightarrow>
             (case copyFileSync env file (path_join outDir (base @ ''.gif''))
                     (log Error (take 1000 e) st1) of
                (Some x, st2) \<Rightarrow> (Some x, st2)
              | (None, st2) \<Rightarrow> (None, log Warn ''Copied original GIF as fallback.'' st2)))"

text \<open>The thumbnail rendition, and the entry pushed when it succeeds.\<close>

definition encode_thumb :: "env \<Rightarrow> string \<Rightarrow> string \<Rightarrow> state \<Rightarrow> (exn option \<times> state) option" where
  "encode_thumb env file base st =
     (let thumbWebM = path_join thumbDir (base @ ''.webm'')
      in case ffmpeg env (thumb_args file thumbWebM) thumbWebM st of
           None \<Rightarrow> None
         | Some (rThumb, st1) \<Rightarrow>
             if \<not> ok rThumb then
               (case stderr rThumb of
                  None \<Rightarrow> Some (Some TypeError, st1)
                | Some e \<Rightarrow>
                    Some (None, log Error (''Failed to create thumbnail WebM: '' @ take 800 e) st1))
             else
               Some (None, push (gif_entry env file base)
                             (log Info (''Created thumbnail WebM -> '' @ thumbWebM) st1)))"

definition process_gif :: "env \<Rightarrow> string \<Rightarrow> string \<Rightarrow> state \<Rightarrow> (exn option \<times> state) option" where
  "process_gif env file base st0 =
     (let st1 = log Info ''Detected GIF. Converting to WebM...'' st0;
          optimizedWebM = path_join outDir (base @ ''.webm'')
      in case encode_full env file optimizedWebM st1 of
           None \<Rightarrow> None
         | Some (r, st2) \<Rightarrow>
             if \<not> ok r then Some (fallback_copy env file base r st2)
             else encode_thumb env file base
                    (log Info (''Converted full GIF -> '' @ optimizedWebM) st2))"

section \<open>The build script: static branch\<close>

definition full_resize :: resize_opts where
  "full_resize = \<lparr>width = Some 1600, height = None, cover_centre = False, withoutEnlargement = True\<rparr>"

definition thumb_resize :: resize_opts where
  "thumb_resize = \<lparr>width = Some 360, height = Some 360, cover_centre = True, withoutEnlargement = False\<rparr>"

text \<open>
  \<open>sharp(src).resize(r).<encoding>.toFile(dst)\<close>: the file is written when the encode
  succeeds; the promise rejects otherwise.
\<close>

definition toFile :: "env \<Rightarrow> string \<Rightarrow> resize_opts \<Rightarrow> encoding_opts \<Rightarrow> string \<Rightarrow> state \<Rightarrow> bool \<times> state" where
  "toFile env src r enc dst st =
     (if sharp_ok env src dst
      then (True, put_file dst (SharpOutput src r enc) (emit (ToFile src dst True) st))
      else (False, emit (ToFile src dst False) st))"

text \<open>
  \<open>await Promise.all([a, b])\<close> for two encodes: both are started, and the await throws
  when one of them rejects (the error of the first in the array, here). The two encodes
  are taken in the order of the array.
\<close>

definition promise_all2 ::
  "(state \<Rightarrow> bool \<times> state) \<Rightarrow> string \<Rightarrow> (state \<Rightarrow> bool \<times> state) \<Rightarrow> string \<Rightarrow> state \<Rightarrow> exn option \<times> state" where
  "promise_all2 a dst_a b dst_b st =
     (let (ok_a, st1) = a st; (ok_b, st2) = b st1
      in (if \<not> ok_a then Some (SharpError dst_a)
          else if \<not> ok_b then Some (SharpError dst_b)
          else None, st2))"

definition static_entry :: "env \<Rightarrow> string \<Rightarrow> string \<Rightarrow> entry" where
  "static_entry env file base =
     \<lparr>original = portable env file,
      optimized = WebpJpg (portable env (path_join outDir (base @ ''.webp'')))
                          (portable env (path_join outDir (base @ ''.jpg''))),
      thumbnail = WebpJpg (portable env (path_join thumbDir (base @ ''.webp'')))
                          (portable env (path_join thumbDir (base @ ''.jpg''))),
      format = ''image''\<rparr>"

definition process_static :: "env \<Rightarrow> string \<Rightarrow> string \<Rightarrow> state \<Rightarrow> exn option \<times> state" where
  "process_static env file base st0 =
     (let st1 = log Info ''Static image. Optimizing with Sharp...'' st0;
          optimizedWebP = path_join outDir (base @ ''.webp'');
          optimizedJPG = path_join outDir (base @ ''.jpg'');
          thumbWebP = path_join thumbDir (base @ ''.webp'');
          thumbJPG = path_join thumbDir (base @ ''.jpg'')
      in case promise_all2
                (toFile env file full_resize (Webp 80) optimizedWebP) optimizedWebP
                (toFile env file full_resize (Jpeg 82 True) optimizedJPG) optimizedJPG st1 of
           (Some x, st2) \<Rightarrow> (Some x, st2)
         | (None, st2) \<Rightarrow>
             (case promise_all2
                     (toFile env file thumb_resize (Webp 60) thumbWebP) thumbWebP
                     (toFile env file thumb_resize (Jpeg 72 True) thumbJPG) thumbJPG st2 of
                (Some x, st3) \<Rightarrow> (Some x, st3)
              | (None, st3) \<Rightarrow> (None, push (static_entry env file base) st3)))"

section \<open>The build script: the loop and the run\<close>

text \<open>
  One iteration of \<open>for (const file of orderedFiles) { try { ... } catch (err) { ... } }\<close>:
  the \<open>try\<close> block, and the iteration with its \<open>catch\<close>.
\<close>

definition try_block :: "env \<Rightarrow> string \<Rightarrow> state \<Rightarrow> (exn option \<times> state) option" where
  "try_block env file st =
     (let ext = toLowerCase (extname file);
          base = basename_suffix file ext;
          st1 = emit (Processing file) st
      in if ext = ''.gif'' then process_gif env file base st1
         else Some (process_static env file base st1))"

definition process_file :: "env \<Rightarrow> string \<Rightarrow> state \<Rightarrow> state option" where
  "process_file env file st =
     (case try_block env file st of
        None \<Rightarrow> None
      | Some (None, st2) \<Rightarrow> Some st2
      | Some (Some err, st2) \<Rightarrow> Some (emit (Caught file err) st2))"

fun process_all :: "env \<Rightarrow> string list \<Rightarrow> state \<Rightarrow> state option" where
  "process_all env [] st = Some st"
| "process_all env (file # rest) st =
     (case process_file env file st of
        None \<Rightarrow> None
      | Some st1 \<Rightarrow> process_all env rest st1)"

text \<open>
  How the process ends: \<open>process.exit(n)\<close>, the end of the script (exit status 0), or
  an uncaught exception (exit status 1).
\<close>

datatype exit_kind = EarlyExit int | Finished | Uncaught exn


record run_result =
  ending :: exit_kind
  final_state :: state

definition first_line :: "string \<Rightarrow> string" where
  "first_line s = takeWhile (\<lambda>c. c \<noteq> CHR 0x0A) s"

text \<open>
  The start of the script: the output directories are made and \<open>ffmpeg -version\<close> is run;
  the run goes on whether the encoder is there or not. \<open>ffCheck.stdout.split("\n")[0]\<close>
  throws when \<open>stdout\<close> is null.
\<close>

definition startup :: "env \<Rightarrow> (string \<Rightarrow> content option) \<Rightarrow> (exn option \<times> state) option" where
  "startup env disk0 =
     (let st0 = \<lparr>disk = disk0, indexData = [], trace = [Mkdir outDir, Mkdir thumbDir]\<rparr>
      in case runCmd env ''ffmpeg'' [''-version''] None of
           None \<Rightarrow> None
         | Some ffCheck \<Rightarrow>
             (let st1 = emit (Spawned ''ffmpeg'' [''-version'']) st0
              in if \<not> ok ffCheck
                 then Some (None, log Error
                        ''FFmpeg not found in PATH. GIF -> WebM conversion will fail.'' st1)
                 else (case stdout ffCheck of
                         None \<Rightarrow> Some (Some TypeError, st1)
                       | Some out \<Rightarrow>
                           Some (None, log Info (''FFmpeg detected: '' @ first_line out) st1))))"

text \<open>
  The whole script, for the files found by \<open>glob\<close> and the disk it starts on. \<open>None\<close> is a
  run that never ends.
\<close>

definition main :: "env \<Rightarrow> string list \<Rightarrow> (string \<Rightarrow> content option) \<Rightarrow> run_result option" where
  "main env files disk0 =
     (case startup env disk0 of
        None \<Rightarrow> None
      | Some (Some x, st1) \<Rightarrow> Some \<lparr>ending = Uncaught x, final_state = st1\<rparr>
      | Some (None, st1) \<Rightarrow>
          if files = []
          then Some \<lparr>ending = EarlyExit 0,
                     final_state = log Info ''No images found in /images'' st1\<rparr>
          else
            (case process_all env (orderedFiles files)
                    (log Info ''Found files to process.'' st1) of
               None \<Rightarrow> None
             | Some st2 \<Rightarrow>
                 Some \<lparr>ending = Finished,
                       final_state = log Info ''Done! Items written to index.json''
                                 (put_file indexFile (ManifestJson (indexData st2))
                                    (emit (WriteFile indexFile) st2))\<rparr>))"

section \<open>What the environment decides for a file\<close>

text \<open>An encoder command line exits with status 0; a command line exits at all.\<close>

definition ffmpeg_ok :: "env \<Rightarrow> string list \<Rightarrow> bool" where
  "ffmpeg_ok env args =
     (case spawn env ''ffmpeg'' args of Exits ms st out err \<Rightarrow> st = 0 | _ \<Rightarrow> False)"

definition returns :: "env \<Rightarrow> string \<Rightarrow> string list \<Rightarrow> bool" where
  "returns env cmd args = (case spawn env cmd args of Hangs out err \<Rightarrow> False | _ \<Rightarrow> True)"

text \<open>\<open>base = path.basename(file, ext)\<close> with \<open>ext = path.extname(file).toLowerCase()\<close>\<close>

definition base_of :: "string \<Rightarrow> string" where
  "base_of file = basename_suffix file (toLowerCase (extname file))"

definition optimizedWebM :: "string \<Rightarrow> string" where
  "optimizedWebM file = path_join outDir (base_of file @ ''.webm'')"

definition thumbWebM :: "string \<Rightarrow> string" where
  "thumbWebM file = path_join thumbDir (base_of file @ ''.webm'')"

definition optimizedWebP :: "string \<Rightarrow> string" where
  "optimizedWebP file = path_join outDir (base_of file @ ''.webp'')"

definition optimizedJPG :: "string \<Rightarrow> string" where
  "optimizedJPG file = path_join outDir (base_of file @ ''.jpg'')"

definition thumbWebP :: "string \<Rightarrow> string" where
  "thumbWebP file = path_join thumbDir (base_of file @ ''.webp'')"

definition thumbJPG :: "string \<Rightarrow> string" where
  "thumbJPG file = path_join thumbDir (base_of file @ ''.jpg'')"

text \<open>The variant files of a source file, and the entry the script pushes for it.\<close>

definition variant_files :: "string \<Rightarrow> string list" where
  "variant_files file =
     (if is_gif file then [optimizedWebM file, thumbWebM file]
      else [optimizedWebP file, optimizedJPG file, thumbWebP file, thumbJPG file])"

definition entry_of :: "env \<Rightarrow> string \<Rightarrow> entry" where
  "entry_of env file =
     (if is_gif file then gif_entry env file (base_of file)
      else static_entry env file (base_of file))"

definition referenced :: "entry \<Rightarrow> string list" where
  "referenced e = variant_paths (optimized e) @ variant_paths (thumbnail e)"

text \<open>
  Every encode of a file reports success: for a GIF the full encode (the first profile,
  or else the second) and the thumbnail encode; for a static image the four encodes.
\<close>

definition full_ok :: "env \<Rightarrow> string \<Rightarrow> bool" where
  "full_ok env file =
     (ffmpeg_ok env (vp9_args file (optimizedWebM file))
      \<or> ffmpeg_ok env (vp8_args file (optimizedWebM file)))"

definition static_ok :: "env \<Rightarrow> string \<Rightarrow> bool" where
  "static_ok env file =
     (sharp_ok env file (optimizedWebP file) \<and> sharp_ok env file (optimizedJPG file)
      \<and> sharp_ok env file (thumbWebP file) \<and> sharp_ok env file (thumbJPG file))"

definition succeeds :: "env \<Rightarrow> string \<Rightarrow> bool" where
  "succeeds env file =
     (if is_gif file
      then full_ok env file \<and> ffmpeg_ok env (thumb_args file (thumbWebM file))
      else static_ok env file)"

text \<open>
  The \<open>try\<close> block of a file ends in an exception: for a GIF whose full encode failed,
  when the last attempt left no \<open>stderr\<close> or the copy of the original fails; for a GIF
  whose thumbnail encode failed, when that attempt left no \<open>stderr\<close>; for a static image,
  when one of the four encodes fails.
\<close>

definition throws :: "env \<Rightarrow> string \<Rightarrow> bool" where
  "throws env file =
     (if is_gif file
      then (if full_ok env file
            then \<not> ffmpeg_ok env (thumb_args file (thumbWebM file))
               \<and> spawn env ''ffmpeg'' (thumb_args file (thumbWebM file)) = SpawnError
            else spawn env ''ffmpeg'' (vp8_args file (optimizedWebM file)) = SpawnError
               \<or> \<not> copy_ok env file (path_join outDir (base_of file @ ''.gif'')))
      else \<not> static_ok env file)"

text \<open>Every encoder call the script makes for a file returns.\<close>

definition terminates :: "env \<Rightarrow> string \<Rightarrow> bool" where
  "terminates env file =
     (if is_gif file
      then returns env ''ffmpeg'' (vp9_args file (optimizedWebM file))
         \<and> (if ffmpeg_ok env (vp9_args file (optimizedWebM file)) then True
            else returns env ''ffmpeg'' (vp8_args file (optimizedWebM file)))
         \<and> (if full_ok env file then returns env ''ffmpeg'' (thumb_args file (thumbWebM file))
            else True)
      else True)"

text \<open>A file on disk was produced from a given source file.\<close>

fun produced_from :: "string \<Rightarrow> content \<Rightarrow> bool" where
  "produced_from file (FfmpegOutput args) = (args ! 3 = file)"
| "produced_from file (SharpOutput src r enc) = (src = file)"
| "produced_from file (CopyOf src) = (src = file)"
| "produced_from file (ManifestJson es) = False"

text \<open>The encoder command lines and the files in the order the run took them up.\<close>

fun encoder_calls :: "event list \<Rightarrow> string list list" where
  "encoder_calls [] = []"
| "encoder_calls (Spawned cmd args # tr) = args # encoder_calls tr"
| "encoder_calls (e # tr) = encoder_calls tr"

fun processed :: "event list \<Rightarrow> string list" where
  "processed [] = []"
| "processed (Processing f # tr) = f # processed tr"
| "processed (e # tr) = processed tr"

fun caught :: "event list \<Rightarrow> string list" where
  "caught [] = []"
| "caught (Caught f x # tr) = f # caught tr"
| "caught (e # tr) = caught tr"

fun written_files :: "event list \<Rightarrow> string list" where
  "written_files [] = []"
| "written_files (WriteFile p # tr) = p # written_files tr"
| "written_files (e # tr) = written_files tr"

text \<open>The directories the run made (\<open>fs.mkdirSync\<close>), in order.\<close>

fun made_dirs :: "event list \<Rightarrow> string list" where
  "made_dirs [] = []"
| "made_dirs (Mkdir d # tr) = d # made_dirs tr"
| "made_dirs (e # tr) = made_dirs tr"

text \<open>
  Environments for concrete runs: every image encode and copy succeeds and paths are
  already relative to the working directory; the behaviour of command lines is given.
\<close>

definition env_of :: "(string \<Rightarrow> string list \<Rightarrow> proc) \<Rightarrow> env" where
  "env_of sp = \<lparr>spawn = sp, sharp_ok = (\<lambda>src dst. True), copy_ok = (\<lambda>src dst. True),
                relative = (\<lambda>p. p)\<rparr>"

text \<open>The encoder is installed and fails on \<open>images/broken.gif\<close> only.\<close>

definition demo_spawn :: "string \<Rightarrow> string list \<Rightarrow> proc" where
  "demo_spawn cmd args =
     (if args = [''-version''] then Exits 20 0 ''ffmpeg version 6.0'' []
      else if args ! 3 = ''images/broken.gif'' then Exits 300 1 [] ''Invalid data found''
      else Exits 4000 0 [] [])"

definition demo_files :: "string list" where
  "demo_files = [''images/broken.gif'', ''images/2022-05-01_cat.png'', ''images/party.gif'']"

definition st_init :: state where
  "st_init = \<lparr>disk = Map.empty, indexData = [], trace = []\<rparr>"

text \<open>No encoder in \<open>PATH\<close>; and an encoder whose every encode never exits.\<close>

definition missing_spawn :: "string \<Rightarrow> string list \<Rightarrow> proc" where
  "missing_spawn cmd args = SpawnError"

definition stuck_spawn :: "string \<Rightarrow> string list \<Rightarrow> proc" where
  "stuck_spawn cmd args =
     (if args = [''-version''] then Exits 20 0 ''ffmpeg version 6.0'' [] else Hangs [] [])"

definition slow_spawn :: "string \<Rightarrow> string list \<Rightarrow> proc" where
  "slow_spawn cmd args = Exits 200000 0 [] []"


section \<open>The image library's resize\<close>

text \<open>
  Modelled from the spec: the resize of the image library (\<open>sharp\<close>), an external
  collaborator whose code is not among the repository's sources. The spec's words: "full
  tier: resize so width \<le> a fixed cap, preserving aspect ratio, never upscaling" and
  "thumbnail tier: resize+crop to a fixed square dimension, center-anchored". With a target
  width only, the height follows the scale of the width, rounded to a whole pixel; with
  \<open>withoutEnlargement\<close>, an image no wider than the target keeps its size.
\<close>

definition sharp_resize :: "resize_opts \<Rightarrow> nat \<times> nat \<Rightarrow> nat \<times> nat" where
  "sharp_resize r dims =
     (case dims of (w, h) \<Rightarrow>
        (case (width r, height r) of
           (Some tw, None) \<Rightarrow>
             if withoutEnlargement r \<and> w \<le> tw then (w, h)
             else (tw, (h * tw + w div 2) div w)
         | (Some tw, Some th) \<Rightarrow> if cover_centre r then (tw, th) else (w, h)
         | _ \<Rightarrow> (w, h)))"

text \<open>The size of the full-tier variant the script asks for, from the size of the source.\<close>

definition full_tier_size :: "nat \<times> nat \<Rightarrow> nat \<times> nat" where
  "full_tier_size dims = sharp_resize full_resize dims"

section \<open>Paths, classification and years\<close>

lemma takeWhile_upto:
  "x \<notin> set xs \<Longrightarrow> takeWhile (\<lambda>c. c \<noteq> x) (xs @ x # ys) = xs"
  by (induction xs) auto

lemma last_component_file:
  assumes "slash \<notin> set n" "n \<noteq> []"
  shows "last_component (d @ slash # n) = n"
proof -
  obtain x xs where r: "rev n = x # xs"
    using assms(2) by (cases "rev n") auto
  have x: "x \<noteq> slash"
    using assms(1) r by (metis list.set_intros(1) set_rev)
  have "dropWhile (\<lambda>c. c = slash) (rev (d @ slash # n)) = rev n @ slash # rev d"
    using r x by simp
  moreover have "takeWhile (\<lambda>c. c \<noteq> slash) (rev n @ slash # rev d) = rev n"
    using assms(1) by (simp add: takeWhile_upto)
  ultimately show ?thesis
    by (simp add: last_component_def)
qed

lemma extname_of_comp:
  assumes "dot \<notin> set e" "name \<noteq> []"
  shows "(let comp = name @ dot # e;
          ext_rev = takeWhile (\<lambda>c. c \<noteq> dot) (rev comp);
          stem_rev = drop (Suc (length ext_rev)) (rev comp)
      in if dot \<notin> set comp \<or> stem_rev = [] \<or> comp = [dot, dot] then []
         else dot # rev ext_rev) = (if name = [dot] \<and> e = [] then [] else dot # e)"
proof -
  have t: "takeWhile (\<lambda>c. c \<noteq> dot) (rev (name @ dot # e)) = rev e"
    using assms(1) by (simp add: takeWhile_upto)
  have c: "(name @ dot # e = [dot, dot]) = (name = [dot] \<and> e = [])"
  proof (cases name)
    case Nil
    with assms(2) show ?thesis by simp
  next
    case (Cons a rest)
    then show ?thesis by (cases rest) auto
  qed
  show ?thesis
    unfolding Let_def t using assms(2) c by simp
qed

lemma extname_file:
  assumes "name \<noteq> []" "slash \<notin> set name" "slash \<notin> set e" "dot \<notin> set e"
  shows "extname (d @ slash # name @ dot # e) = (if name = [dot] \<and> e = [] then [] else dot # e)"
proof -
  have "last_component (d @ slash # (name @ dot # e)) = name @ dot # e"
    using assms by (intro last_component_file) (auto simp: slash_def dot_def)
  then show ?thesis
    using extname_of_comp[OF assms(4) assms(1)] by (simp add: extname_def)
qed

lemma toLowerCase_simps:
  "toLowerCase [] = []"
  "toLowerCase (c # cs) = lower_char c # toLowerCase cs"
  by (simp_all add: toLowerCase_def)

lemma lower_dot: "lower_char dot = dot"
  by (simp add: lower_char_def dot_def)

lemma is_gif_file:
  assumes "name \<noteq> []" "slash \<notin> set name" "slash \<notin> set e" "dot \<notin> set e"
  shows "is_gif (d @ slash # name @ dot # e) \<longleftrightarrow> toLowerCase e = ''gif''"
proof (cases "name = [dot] \<and> e = []")
  case True
  then show ?thesis
    using extname_file[OF assms, of d] by (simp add: is_gif_def toLowerCase_simps)
next
  case False
  then have "extname (d @ slash # name @ dot # e) = dot # e"
    using extname_file[OF assms, of d] by simp
  then show ?thesis
    using lower_dot by (simp add: is_gif_def toLowerCase_simps dot_def)
qed

text \<open>
  Claim C7. A discovered file \<open>dir/name.ext\<close> (a file name with a non-empty stem, as the
  glob pattern \<open>*.+(...)\<close> matches it) is classified from its path alone: it is animated
  exactly when its extension lowercases to \<open>gif\<close> and static otherwise, and two such paths
  that differ only in the case of the extension are classified alike.
\<close>

theorem classify_by_extension:
  assumes "name \<noteq> []" "slash \<notin> set name"
    and "slash \<notin> set e" "dot \<notin> set e" "slash \<notin> set e'" "dot \<notin> set e'"
  shows "(classify (d @ slash # name @ dot # e) = Animated \<longleftrightarrow> toLowerCase e = ''gif'')
       \<and> (classify (d @ slash # name @ dot # e) = Static \<longleftrightarrow> toLowerCase e \<noteq> ''gif'')
       \<and> (toLowerCase e = toLowerCase e' \<longrightarrow>
            classify (d @ slash # name @ dot # e) = classify (d @ slash # name @ dot # e'))"
  using is_gif_file[OF assms(1,2,3,4), of d] is_gif_file[OF assms(1,2,5,6), of d]
  by (simp add: classify_def)

theorem classify_by_extension_witness:
  "classify ''images/photo.PNG'' = classify ''images/photo.png''
   \<and> classify ''images/clip.GIF'' = Animated \<and> classify ''images/photo.PNG'' = Static"
proof -
  have "classify ''images/photo.PNG'' = classify ''images/photo.png''
       \<and> classify ''images/photo.PNG'' = Static"
    using classify_by_extension[of "''photo''" "''PNG''" "''png''" "''images''"]
    by (auto simp: slash_def dot_def toLowerCase_def lower_char_def)
  moreover have "classify ''images/clip.GIF'' = Animated"
    using classify_by_extension[of "''clip''" "''GIF''" "''GIF''" "''images''"]
    by (simp add: slash_def dot_def toLowerCase_def lower_char_def)
  ultimately show ?thesis by blast
qed

lemma split_slash_plain: "slash \<notin> set n \<Longrightarrow> split_slash n = [n]"
  by (induction n) auto

lemma split_slash_ne: "split_slash p \<noteq> []"
  by (induction p) (auto split: list.splits)

lemma split_slash_snoc:
  "\<exists>w ws. split_slash (d @ slash # n) = w # ws @ [last (split_slash n)]"
proof (induction d)
  case Nil
  have "split_slash ([] @ slash # n) = [] # butlast (split_slash n) @ [last (split_slash n)]"
    by (simp add: split_slash_ne)
  then show ?case by blast
next
  case (Cons c d)
  then show ?case by auto
qed

lemma basename_file: "slash \<notin> set n \<Longrightarrow> basename (d @ slash # n) = n"
  unfolding basename_def
  using split_slash_snoc[of d n] by (auto simp: split_slash_plain)

lemma basename_plain: "slash \<notin> set n \<Longrightarrow> basename n = n"
  by (simp add: basename_def split_slash_plain)

lemma match_year_spec: "match_year name = spec_year name"
proof (cases name)
  case Nil then show ?thesis by (simp add: spec_year_def)
next
  case (Cons a l1)
  then show ?thesis
  proof (cases l1)
    case Nil with Cons show ?thesis by (simp add: spec_year_def)
  next
    case (Cons b l2)
    note c2 = this
    show ?thesis
    proof (cases l2)
      case Nil with c2 \<open>name = a # l1\<close> show ?thesis by (simp add: spec_year_def)
    next
      case (Cons c l3)
      note c3 = this
      show ?thesis
      proof (cases l3)
        case Nil with c2 c3 \<open>name = a # l1\<close> show ?thesis by (simp add: spec_year_def)
      next
        case (Cons d l4)
        note c4 = this
        show ?thesis
        proof (cases l4)
          case Nil with c2 c3 c4 \<open>name = a # l1\<close> show ?thesis by (simp add: spec_year_def)
        next
          case (Cons s rest)
          with c2 c3 c4 \<open>name = a # l1\<close> show ?thesis by (simp add: spec_year_def)
        qed
      qed
    qed
  qed
qed

text \<open>
  Claim C8. The year of a manifest entry is read from the file name of its \<open>original\<close>
  path alone (what follows the last \<open>/\<close>): it is the first four characters when they are
  digits and the fifth is one of \<open>-\<close>, \<open>_\<close>, \<open>.\<close>, and there is no year otherwise.
\<close>

theorem yearFromItem_filename:
  assumes "slash \<notin> set name"
  shows "yearFromItem (Some (dir @ slash # name)) = spec_year name
       \<and> yearFromItem (Some name) = spec_year name"
  using assms by (simp add: yearFromItem_def basename_file basename_plain match_year_spec)

theorem yearFromItem_filename_witness:
  "yearFromItem (Some ''images/2023-04-01_beach.jpg'') = Some ''2023''
   \<and> yearFromItem (Some ''images/beach.jpg'') = None
   \<and> yearFromItem (Some ''2023.jpg'') = Some ''2023''"
proof -
  have "yearFromItem (Some ''images/2023-04-01_beach.jpg'') = Some ''2023''"
    using yearFromItem_filename[of "''2023-04-01_beach.jpg''" "''images''"]
    by (simp add: slash_def spec_year_def is_digit_def is_year_sep_def dot_def)
  moreover have "yearFromItem (Some ''images/beach.jpg'') = None"
    using yearFromItem_filename[of "''beach.jpg''" "''images''"]
    by (simp add: slash_def spec_year_def is_digit_def is_year_sep_def dot_def)
  moreover have "yearFromItem (Some ''2023.jpg'') = Some ''2023''" 
    using yearFromItem_filename[of "''2023.jpg''" "''images''"]
    by (simp add: slash_def spec_year_def is_digit_def is_year_sep_def dot_def)
  ultimately show ?thesis by simp
qed

section \<open>Effects of the script's steps\<close>

lemma emit_simps [simp]:
  "disk (emit e st) = disk st" "indexData (emit e st) = indexData st"
  "trace (emit e st) = trace st @ [e]"
  by (simp_all add: emit_def)

lemma log_simps [simp]:
  "disk (log l m st) = disk st" "indexData (log l m st) = indexData st"
  "trace (log l m st) = trace st @ [Log l m]"
  by (simp_all add: log_def)

lemma put_file_simps [simp]:
  "disk (put_file p c st) = (disk st)(p \<mapsto> c)" "indexData (put_file p c st) = indexData st"
  "trace (put_file p c st) = trace st"
  by (simp_all add: put_file_def)

lemma push_simps [simp]:
  "disk (push e st) = disk st" "indexData (push e st) = indexData st @ [e]"
  "trace (push e st) = trace st"
  by (simp_all add: push_def)

lemma processed_append [simp]: "processed (xs @ ys) = processed xs @ processed ys"
  by (induction xs rule: processed.induct) simp_all

lemma written_files_append [simp]:
  "written_files (xs @ ys) = written_files xs @ written_files ys"
  by (induction xs rule: written_files.induct) simp_all

lemma made_dirs_append [simp]: "made_dirs (xs @ ys) = made_dirs xs @ made_dirs ys"
  by (induction xs rule: made_dirs.induct) simp_all

lemma caught_append [simp]: "caught (xs @ ys) = caught xs @ caught ys"
  by (induction xs rule: caught.induct) simp_all

lemma encoder_calls_append [simp]:
  "encoder_calls (xs @ ys) = encoder_calls xs @ encoder_calls ys"
  by (induction xs rule: encoder_calls.induct) simp_all

lemma runCmd_cases:
  "runCmd env cmd args extra =
     (case spawn env cmd args of
        Exits ms st out err \<Rightarrow>
          Some \<lparr>ok = (st = 0), stdout = Some out, stderr = Some err, code = Some st\<rparr>
      | SpawnError \<Rightarrow> Some \<lparr>ok = False, stdout = None, stderr = None, code = None\<rparr>
      | Hangs out err \<Rightarrow> None)"
  by (simp add: runCmd_def spawnSync_def split: proc.splits)

lemma ffmpeg_None: "ffmpeg env args outp st = None \<longleftrightarrow> \<not> returns env ''ffmpeg'' args"
  by (simp add: ffmpeg_def runCmd_cases returns_def split: proc.splits)

lemma ffmpeg_Some:
  assumes "ffmpeg env args outp st = Some (r, st')"
  shows "ok r = ffmpeg_ok env args"
    and "indexData st' = indexData st"
    and "trace st' = trace st @ [Spawned ''ffmpeg'' args]"
    and "disk st' = (if ffmpeg_ok env args then (disk st)(outp \<mapsto> FfmpegOutput args) else disk st)"
    and "stderr r = None \<longleftrightarrow> spawn env ''ffmpeg'' args = SpawnError"
  using assms
  by (auto simp: ffmpeg_def runCmd_cases ffmpeg_ok_def split: proc.splits)

lemma ffmpeg_dom:
  assumes "ffmpeg env args outp st = Some (r, st')"
  shows "dom (disk st) \<subseteq> dom (disk st')"
  using ffmpeg_Some(4)[OF assms] by auto

subsection \<open>GIF branch\<close>

lemma encode_full_None:
  "encode_full env file outp st = None \<longleftrightarrow>
     \<not> (returns env ''ffmpeg'' (vp9_args file outp)
        \<and> (ffmpeg_ok env (vp9_args file outp) \<or> returns env ''ffmpeg'' (vp8_args file outp)))"
proof (cases "ffmpeg env (vp9_args file outp) outp st")
  case None
  then show ?thesis
    using ffmpeg_None[of env "vp9_args file outp" outp st] by (simp add: encode_full_def)
next
  case (Some a)
  obtain r9 st1 where a: "a = (r9, st1)" by (cases a)
  have r: "returns env ''ffmpeg'' (vp9_args file outp)"
    using Some ffmpeg_None[of env "vp9_args file outp" outp st] by auto
  show ?thesis
    using Some a r ffmpeg_Some(1)[of env "vp9_args file outp" outp st r9 st1]
      ffmpeg_None[of env "vp8_args file outp" outp]
    by (simp add: encode_full_def)
qed

lemma encode_full_Some:
  assumes "encode_full env file outp st = Some (r, st')"
  shows "ok r = (ffmpeg_ok env (vp9_args file outp) \<or> ffmpeg_ok env (vp8_args file outp))"
    and "indexData st' = indexData st"
    and "dom (disk st) \<subseteq> dom (disk st')"
    and "processed (trace st') = processed (trace st)"
    and "encoder_calls (trace st') = encoder_calls (trace st) @
           (vp9_args file outp #
             (if ffmpeg_ok env (vp9_args file outp) then [] else [vp8_args file outp]))"
    and "ok r \<Longrightarrow> disk st' outp = Some (FfmpegOutput (vp9_args file outp))
              \<or> disk st' outp = Some (FfmpegOutput (vp8_args file outp))"
    and "caught (trace st') = caught (trace st)"
    and "\<not> ok r \<Longrightarrow> stderr r = None \<longleftrightarrow> spawn env ''ffmpeg'' (vp8_args file outp) = SpawnError"
proof -
  obtain r9 st1 where f9: "ffmpeg env (vp9_args file outp) outp st = Some (r9, st1)"
    using assms by (cases "ffmpeg env (vp9_args file outp) outp st") (auto simp: encode_full_def)
  note a = ffmpeg_Some[OF f9] ffmpeg_dom[OF f9]
  have "(ok r = (ffmpeg_ok env (vp9_args file outp) \<or> ffmpeg_ok env (vp8_args file outp)))
      \<and> indexData st' = indexData st
      \<and> dom (disk st) \<subseteq> dom (disk st')
      \<and> processed (trace st') = processed (trace st)
      \<and> encoder_calls (trace st') = encoder_calls (trace st) @
           (vp9_args file outp #
             (if ffmpeg_ok env (vp9_args file outp) then [] else [vp8_args file outp]))
      \<and> (ok r \<longrightarrow> disk st' outp = Some (FfmpegOutput (vp9_args file outp))
              \<or> disk st' outp = Some (FfmpegOutput (vp8_args file outp)))
      \<and> caught (trace st') = caught (trace st)
      \<and> (\<not> ok r \<longrightarrow> stderr r = None \<longleftrightarrow> spawn env ''ffmpeg'' (vp8_args file outp) = SpawnError)"
  proof (cases "ok r9")
    case True
    then have "r = r9" "st' = st1"
      using assms f9 by (simp_all add: encode_full_def)
    then show ?thesis
      using a True by auto
  next
    case False
    then have f8: "ffmpeg env (vp8_args file outp) outp
                     (log Warn ''VP9 failed, retrying with VP8...'' st1) = Some (r, st')"
      using assms f9 by (simp add: encode_full_def)
    note b = ffmpeg_Some[OF f8] ffmpeg_dom[OF f8]
    show ?thesis
      using a b False by auto
  qed
  then show "ok r = (ffmpeg_ok env (vp9_args file outp) \<or> ffmpeg_ok env (vp8_args file outp))"
    and "indexData st' = indexData st"
    and "dom (disk st) \<subseteq> dom (disk st')"
    and "processed (trace st') = processed (trace st)"
    and "encoder_calls (trace st') = encoder_calls (trace st) @
           (vp9_args file outp #
             (if ffmpeg_ok env (vp9_args file outp) then [] else [vp8_args file outp]))"
    and "ok r \<Longrightarrow> disk st' outp = Some (FfmpegOutput (vp9_args file outp))
              \<or> disk st' outp = Some (FfmpegOutput (vp8_args file outp))"
    and "caught (trace st') = caught (trace st)"
    and "\<not> ok r \<Longrightarrow> stderr r = None \<longleftrightarrow> spawn env ''ffmpeg'' (vp8_args file outp) = SpawnError"
    by blast+
qed

lemma copyFileSync_frame:
  assumes "copyFileSync env src dst st = (x, st')"
  shows "indexData st' = indexData st"
    and "dom (disk st) \<subseteq> dom (disk st')"
    and "processed (trace st') = processed (trace st)"
    and "encoder_calls (trace st') = encoder_calls (trace st)"
    and "caught (trace st') = caught (trace st)"
    and "x = None \<longleftrightarrow> copy_ok env src dst"
    and "x = None \<Longrightarrow> disk st' dst = Some (CopyOf src)"
    and "x \<noteq> None \<Longrightarrow> disk st' = disk st"
  using assms by (auto simp: copyFileSync_def split: if_splits)

lemma fallback_copy_frame:
  assumes "fallback_copy env file base r st = (x, st')"
  shows "indexData st' = indexData st"
    and "dom (disk st) \<subseteq> dom (disk st')"
    and "processed (trace st') = processed (trace st)"
    and "encoder_calls (trace st') = encoder_calls (trace st)"
    and "caught (trace st') = caught (trace st)"
    and "x \<noteq> None \<longleftrightarrow>
           stderr r = None \<or> \<not> copy_ok env file (path_join outDir (base @ ''.gif''))"
    and "x = None \<Longrightarrow> disk st' (path_join outDir (base @ ''.gif'')) = Some (CopyOf file)"
  using assms
  by (auto simp: fallback_copy_def copyFileSync_def Let_def split: option.splits if_splits)

lemma encode_thumb_None:
  "encode_thumb env file base st = None \<longleftrightarrow>
     \<not> returns env ''ffmpeg'' (thumb_args file (path_join thumbDir (base @ ''.webm'')))"
  using ffmpeg_None[of env "thumb_args file (path_join thumbDir (base @ ''.webm''))"
      "path_join thumbDir (base @ ''.webm'')" st]
  by (auto simp: encode_thumb_def split: option.splits if_splits)

lemma encode_thumb_Some:
  assumes "encode_thumb env file base st = Some (x, st')"
  shows "indexData st' = indexData st @
           (if ffmpeg_ok env (thumb_args file (path_join thumbDir (base @ ''.webm'')))
            then [gif_entry env file base] else [])"
    and "dom (disk st) \<subseteq> dom (disk st')"
    and "processed (trace st') = processed (trace st)"
    and "encoder_calls (trace st') = encoder_calls (trace st) @
           [thumb_args file (path_join thumbDir (base @ ''.webm''))]"
    and "ffmpeg_ok env (thumb_args file (path_join thumbDir (base @ ''.webm''))) \<Longrightarrow>
           disk st' (path_join thumbDir (base @ ''.webm'')) =
             Some (FfmpegOutput (thumb_args file (path_join thumbDir (base @ ''.webm''))))"
    and "ffmpeg_ok env (thumb_args file (path_join thumbDir (base @ ''.webm''))) \<Longrightarrow>
           p \<noteq> path_join thumbDir (base @ ''.webm'') \<Longrightarrow> disk st' p = disk st p"
    and "caught (trace st') = caught (trace st)"
    and "x \<noteq> None \<longleftrightarrow>
           \<not> ffmpeg_ok env (thumb_args file (path_join thumbDir (base @ ''.webm'')))
           \<and> spawn env ''ffmpeg'' (thumb_args file (path_join thumbDir (base @ ''.webm''))) = SpawnError"
proof -
  let ?t = "path_join thumbDir (base @ ''.webm'')"
  obtain rT st1 where f: "ffmpeg env (thumb_args file ?t) ?t st = Some (rT, st1)"
    using assms by (cases "ffmpeg env (thumb_args file ?t) ?t st") (auto simp: encode_thumb_def)
  note a = ffmpeg_Some[OF f] ffmpeg_dom[OF f]
  have st': "st' = (if \<not> ok rT then (case stderr rT of None \<Rightarrow> st1
                | Some e \<Rightarrow> log Error (''Failed to create thumbnail WebM: '' @ take 800 e) st1)
              else push (gif_entry env file base)
                     (log Info (''Created thumbnail WebM -> '' @ ?t) st1))"
    using assms f by (auto simp: encode_thumb_def split: option.splits)
  have x: "x = (if \<not> ok rT \<and> stderr rT = None then Some TypeError else None)"
    using assms f by (auto simp: encode_thumb_def split: option.splits if_splits)
  show "indexData st' = indexData st @
           (if ffmpeg_ok env (thumb_args file ?t) then [gif_entry env file base] else [])"
    and "dom (disk st) \<subseteq> dom (disk st')"
    and "processed (trace st') = processed (trace st)"
    and "encoder_calls (trace st') = encoder_calls (trace st) @ [thumb_args file ?t]"
    and "ffmpeg_ok env (thumb_args file ?t) \<Longrightarrow>
           disk st' ?t = Some (FfmpegOutput (thumb_args file ?t))"
    and "ffmpeg_ok env (thumb_args file ?t) \<Longrightarrow> p \<noteq> ?t \<Longrightarrow> disk st' p = disk st p"
    and "caught (trace st') = caught (trace st)"
    and "x \<noteq> None \<longleftrightarrow>
           \<not> ffmpeg_ok env (thumb_args file ?t) \<and> spawn env ''ffmpeg'' (thumb_args file ?t) = SpawnError"
    using a st' x by (auto split: option.splits)
qed


lemma args_file [simp]:
  "vp9_args file outp ! 3 = file" "vp8_args file outp ! 3 = file" "thumb_args file outp ! 3 = file"
  by (simp_all add: vp9_args_def vp8_args_def thumb_args_def eval_nat_numeral)

lemma process_gif_None:
  "process_gif env file (base_of file) st = None \<longleftrightarrow>
     \<not> (returns env ''ffmpeg'' (vp9_args file (optimizedWebM file))
        \<and> (if ffmpeg_ok env (vp9_args file (optimizedWebM file)) then True
           else returns env ''ffmpeg'' (vp8_args file (optimizedWebM file)))
        \<and> (if full_ok env file then returns env ''ffmpeg'' (thumb_args file (thumbWebM file))
           else True))"
proof (cases "encode_full env file (optimizedWebM file)
                (log Info ''Detected GIF. Converting to WebM...'' st)")
  case None
  then show ?thesis
    using encode_full_None[of env "file" "optimizedWebM file"]
    by (auto simp: process_gif_def optimizedWebM_def)
next
  case (Some a)
  obtain r st2 where a: "a = (r, st2)" by (cases a)
  have ret: "returns env ''ffmpeg'' (vp9_args file (optimizedWebM file))
        \<and> (ffmpeg_ok env (vp9_args file (optimizedWebM file))
           \<or> returns env ''ffmpeg'' (vp8_args file (optimizedWebM file)))"
    using Some encode_full_None[of env "file" "optimizedWebM file"
        "log Info ''Detected GIF. Converting to WebM...'' st"] by simp
  have okr: "ok r = full_ok env file"
    using encode_full_Some(1)[OF Some[unfolded a]] by (simp add: full_ok_def)
  show ?thesis
  proof (cases "ok r")
    case True
    then show ?thesis
      using Some a ret okr encode_thumb_None[of env "file" "base_of file"]
      by (auto simp: process_gif_def optimizedWebM_def thumbWebM_def)
  next
    case False
    then show ?thesis
      using Some a ret okr
      by (auto simp: process_gif_def optimizedWebM_def)
  qed
qed

lemma process_gif_Some:
  assumes "process_gif env file (base_of file) st = Some (x, st')"
  shows "indexData st' = indexData st @
           (if full_ok env file \<and> ffmpeg_ok env (thumb_args file (thumbWebM file))
            then [gif_entry env file (base_of file)] else [])"
    and "dom (disk st) \<subseteq> dom (disk st')"
    and "processed (trace st') = processed (trace st)"
    and "full_ok env file \<Longrightarrow> ffmpeg_ok env (thumb_args file (thumbWebM file)) \<Longrightarrow>
           (\<exists>c. disk st' (optimizedWebM file) = Some c \<and> produced_from file c)
         \<and> (\<exists>c. disk st' (thumbWebM file) = Some c \<and> produced_from file c)"
    and "caught (trace st') = caught (trace st)"
    and "x \<noteq> None \<longleftrightarrow>
           (if full_ok env file
            then \<not> ffmpeg_ok env (thumb_args file (thumbWebM file))
               \<and> spawn env ''ffmpeg'' (thumb_args file (thumbWebM file)) = SpawnError
            else spawn env ''ffmpeg'' (vp8_args file (optimizedWebM file)) = SpawnError
               \<or> \<not> copy_ok env file (path_join outDir (base_of file @ ''.gif'')))"
proof -
  let ?st1 = "log Info ''Detected GIF. Converting to WebM...'' st"
  obtain r st2 where e: "encode_full env file (optimizedWebM file) ?st1 = Some (r, st2)"
    using assms
    by (cases "encode_full env file (optimizedWebM file) ?st1")
       (auto simp: process_gif_def optimizedWebM_def)
  note a = encode_full_Some[OF e]
  have okr: "ok r = full_ok env file"
    using a(1) by (simp add: full_ok_def)
  have "indexData st' = indexData st @
           (if full_ok env file \<and> ffmpeg_ok env (thumb_args file (thumbWebM file))
            then [gif_entry env file (base_of file)] else [])
      \<and> dom (disk st) \<subseteq> dom (disk st')
      \<and> processed (trace st') = processed (trace st)
      \<and> (full_ok env file \<longrightarrow> ffmpeg_ok env (thumb_args file (thumbWebM file)) \<longrightarrow>
           (\<exists>c. disk st' (optimizedWebM file) = Some c \<and> produced_from file c)
         \<and> (\<exists>c. disk st' (thumbWebM file) = Some c \<and> produced_from file c))
      \<and> caught (trace st') = caught (trace st)
      \<and> (x \<noteq> None \<longleftrightarrow>
           (if full_ok env file
            then \<not> ffmpeg_ok env (thumb_args file (thumbWebM file))
               \<and> spawn env ''ffmpeg'' (thumb_args file (thumbWebM file)) = SpawnError
            else spawn env ''ffmpeg'' (vp8_args file (optimizedWebM file)) = SpawnError
               \<or> \<not> copy_ok env file (path_join outDir (base_of file @ ''.gif''))))"
  proof (cases "ok r")
    case False
    then have "fallback_copy env file (base_of file) r st2 = (x, st')"
      using assms e by (simp add: process_gif_def optimizedWebM_def)
    from fallback_copy_frame(1-6)[OF this] show ?thesis
      using a(2,3,4,7) a(8)[OF False] okr False by auto
  next
    case True
    let ?st3 = "log Info (''Converted full GIF -> '' @ optimizedWebM file) st2"
    have t: "encode_thumb env file (base_of file) ?st3 = Some (x, st')"
      using assms e True by (simp add: process_gif_def optimizedWebM_def)
    note b = encode_thumb_Some[OF t, folded thumbWebM_def]
    have full: "\<exists>c. disk st2 (optimizedWebM file) = Some c \<and> produced_from file c"
      using a(6)[OF True] by auto
    have "\<exists>c. disk st' (optimizedWebM file) = Some c \<and> produced_from file c"
      if "ffmpeg_ok env (thumb_args file (thumbWebM file))"
    proof (cases "optimizedWebM file = thumbWebM file")
      case True
      then show ?thesis using b(5)[OF that] by simp
    next
      case False
      then show ?thesis using b(6)[OF that False] full by simp
    qed
    then show ?thesis
      using a(2,3,4,7) b(1,2,3,5,7,8) okr True by auto
  qed
  then show "indexData st' = indexData st @
           (if full_ok env file \<and> ffmpeg_ok env (thumb_args file (thumbWebM file))
            then [gif_entry env file (base_of file)] else [])"
    and "dom (disk st) \<subseteq> dom (disk st')"
    and "processed (trace st') = processed (trace st)"
    and "full_ok env file \<Longrightarrow> ffmpeg_ok env (thumb_args file (thumbWebM file)) \<Longrightarrow>
           (\<exists>c. disk st' (optimizedWebM file) = Some c \<and> produced_from file c)
         \<and> (\<exists>c. disk st' (thumbWebM file) = Some c \<and> produced_from file c)"
    and "caught (trace st') = caught (trace st)"
    and "x \<noteq> None \<longleftrightarrow>
           (if full_ok env file
            then \<not> ffmpeg_ok env (thumb_args file (thumbWebM file))
               \<and> spawn env ''ffmpeg'' (thumb_args file (thumbWebM file)) = SpawnError
            else spawn env ''ffmpeg'' (vp8_args file (optimizedWebM file)) = SpawnError
               \<or> \<not> copy_ok env file (path_join outDir (base_of file @ ''.gif'')))"
    by blast+
qed

subsection \<open>Static branch\<close>

lemma promise_all2_toFile:
  assumes "promise_all2 (toFile env src r1 e1 d1) d1 (toFile env src r2 e2 d2) d2 st = (x, st')"
  shows "x = None \<longleftrightarrow> sharp_ok env src d1 \<and> sharp_ok env src d2"
    and "indexData st' = indexData st"
    and "processed (trace st') = processed (trace st)"
    and "dom (disk st) \<subseteq> dom (disk st')"
    and "x = None \<Longrightarrow> (\<exists>c. disk st' d1 = Some c \<and> produced_from src c)
                   \<and> (\<exists>c. disk st' d2 = Some c \<and> produced_from src c)"
    and "(\<exists>c. disk st p = Some c \<and> produced_from src c) \<Longrightarrow>
         (\<exists>c. disk st' p = Some c \<and> produced_from src c)"
    and "caught (trace st') = caught (trace st)"
  using assms
  by (auto simp: promise_all2_def toFile_def Let_def split: if_splits prod.splits)

lemma process_static_frame:
  assumes "process_static env file (base_of file) st = (x, st')"
  shows "indexData st' = indexData st @
           (if static_ok env file then [static_entry env file (base_of file)] else [])"
    and "dom (disk st) \<subseteq> dom (disk st')"
    and "processed (trace st') = processed (trace st)"
    and "static_ok env file \<Longrightarrow>
           (\<forall>p\<in>{optimizedWebP file, optimizedJPG file, thumbWebP file, thumbJPG file}.
              \<exists>c. disk st' p = Some c \<and> produced_from file c)"
    and "x = None \<longleftrightarrow> static_ok env file"
    and "caught (trace st') = caught (trace st)"
proof -
  let ?st1 = "log Info ''Static image. Optimizing with Sharp...'' st"
  obtain x1 st2 where p1: "promise_all2
      (toFile env file full_resize (Webp 80) (optimizedWebP file)) (optimizedWebP file)
      (toFile env file full_resize (Jpeg 82 True) (optimizedJPG file)) (optimizedJPG file) ?st1
      = (x1, st2)"
    by (cases "promise_all2
      (toFile env file full_resize (Webp 80) (optimizedWebP file)) (optimizedWebP file)
      (toFile env file full_resize (Jpeg 82 True) (optimizedJPG file)) (optimizedJPG file) ?st1")
  note a = promise_all2_toFile[OF p1]
  have "indexData st' = indexData st @
           (if static_ok env file then [static_entry env file (base_of file)] else [])
      \<and> dom (disk st) \<subseteq> dom (disk st')
      \<and> processed (trace st') = processed (trace st)
      \<and> (static_ok env file \<longrightarrow>
           (\<forall>p\<in>{optimizedWebP file, optimizedJPG file, thumbWebP file, thumbJPG file}.
              \<exists>c. disk st' p = Some c \<and> produced_from file c))
      \<and> (x = None \<longleftrightarrow> static_ok env file)
      \<and> caught (trace st') = caught (trace st)"
  proof (cases x1)
    case (Some err)
    then have "x = Some err" "st' = st2"
      using assms p1
      by (simp_all add: process_static_def optimizedWebP_def optimizedJPG_def)
    then show ?thesis
      using a(1,2,3,4,7) Some by (auto simp: static_ok_def)
  next
    case None
    obtain x2 st3 where p2: "promise_all2
        (toFile env file thumb_resize (Webp 60) (thumbWebP file)) (thumbWebP file)
        (toFile env file thumb_resize (Jpeg 72 True) (thumbJPG file)) (thumbJPG file) st2
        = (x2, st3)"
      by (cases "promise_all2
        (toFile env file thumb_resize (Webp 60) (thumbWebP file)) (thumbWebP file)
        (toFile env file thumb_resize (Jpeg 72 True) (thumbJPG file)) (thumbJPG file) st2")
    note b = promise_all2_toFile[OF p2]
    have res: "x = x2" "st' = (if x2 = None then push (static_entry env file (base_of file)) st3 else st3)"
      using assms p1 p2 None
      by (auto simp: process_static_def optimizedWebP_def optimizedJPG_def
          thumbWebP_def thumbJPG_def split: option.splits)
    have keep: "\<exists>c. disk st3 p = Some c \<and> produced_from file c"
      if "p \<in> {optimizedWebP file, optimizedJPG file}" for p
      using a(5)[OF None] b(6)[of p] that by auto
    show ?thesis
      using a(1,2,3,4,7) b(1,2,3,4,5,7) None res keep
      by (auto simp: static_ok_def)
  qed
  then show "indexData st' = indexData st @
           (if static_ok env file then [static_entry env file (base_of file)] else [])"
    and "dom (disk st) \<subseteq> dom (disk st')"
    and "processed (trace st') = processed (trace st)"
    and "static_ok env file \<Longrightarrow>
           (\<forall>p\<in>{optimizedWebP file, optimizedJPG file, thumbWebP file, thumbJPG file}.
              \<exists>c. disk st' p = Some c \<and> produced_from file c)"
    and "x = None \<longleftrightarrow> static_ok env file"
    and "caught (trace st') = caught (trace st)"
    by blast+
qed

subsection \<open>One iteration\<close>

lemma process_file_None:
  "process_file env file st = None \<longleftrightarrow> \<not> terminates env file"
proof (cases "is_gif file")
  case True
  then have "try_block env file st = process_gif env file (base_of file) (emit (Processing file) st)"
    by (simp add: try_block_def is_gif_def base_of_def)
  then show ?thesis
    using True process_gif_None[of env "file" "emit (Processing file) st"]
    by (auto simp: process_file_def terminates_def split: option.splits)
next
  case False
  then have "try_block env file st =
      Some (process_static env file (base_of file) (emit (Processing file) st))"
    by (simp add: try_block_def is_gif_def base_of_def)
  then show ?thesis
    using False by (auto simp: process_file_def terminates_def split: option.splits prod.splits)
qed

lemma process_file_Some:
  assumes "process_file env file st = Some st'"
  shows "indexData st' = indexData st @ (if succeeds env file then [entry_of env file] else [])"
    and "dom (disk st) \<subseteq> dom (disk st')"
    and "processed (trace st') = processed (trace st) @ [file]"
    and "succeeds env file \<Longrightarrow>
           \<forall>p\<in>set (variant_files file). \<exists>c. disk st' p = Some c \<and> produced_from file c"
    and "caught (trace st') = caught (trace st) @ (if throws env file then [file] else [])"
proof -
  obtain x st2 where t: "try_block env file st = Some (x, st2)"
    using assms by (cases "try_block env file st") (auto simp: process_file_def)
  have st': "st' = (case x of None \<Rightarrow> st2 | Some err \<Rightarrow> emit (Caught file err) st2)"
    using assms t by (simp add: process_file_def split: option.splits)
  have "indexData st' = indexData st @ (if succeeds env file then [entry_of env file] else [])
      \<and> dom (disk st) \<subseteq> dom (disk st')
      \<and> processed (trace st') = processed (trace st) @ [file]
      \<and> (succeeds env file \<longrightarrow>
           (\<forall>p\<in>set (variant_files file). \<exists>c. disk st' p = Some c \<and> produced_from file c))
      \<and> caught (trace st') = caught (trace st) @ (if throws env file then [file] else [])"
  proof (cases "is_gif file")
    case True
    then have "process_gif env file (base_of file) (emit (Processing file) st) = Some (x, st2)"
      using t by (simp add: try_block_def is_gif_def base_of_def)
    from process_gif_Some[OF this] show ?thesis
      using True st'
      by (auto simp: succeeds_def entry_of_def variant_files_def throws_def split: option.splits)
  next
    case False
    then have "process_static env file (base_of file) (emit (Processing file) st) = (x, st2)"
      using t by (simp add: try_block_def is_gif_def base_of_def)
    from process_static_frame[OF this] show ?thesis
      using False st'
      by (auto simp: succeeds_def entry_of_def variant_files_def throws_def split: option.splits)
  qed
  then show "indexData st' = indexData st @ (if succeeds env file then [entry_of env file] else [])"
    and "dom (disk st) \<subseteq> dom (disk st')"
    and "processed (trace st') = processed (trace st) @ [file]"
    and "succeeds env file \<Longrightarrow>
           \<forall>p\<in>set (variant_files file). \<exists>c. disk st' p = Some c \<and> produced_from file c"
    and "caught (trace st') = caught (trace st) @ (if throws env file then [file] else [])"
    by blast+
qed

subsection \<open>The loop\<close>

lemma process_all_None:
  "process_all env fs st = None \<longleftrightarrow> \<not> list_all (terminates env) fs"
proof (induction fs arbitrary: st)
  case Nil
  then show ?case by simp
next
  case (Cons f fs)
  show ?case
  proof (cases "process_file env f st")
    case None
    then show ?thesis using process_file_None[of env f st] by simp
  next
    case (Some st1)
    then have "terminates env f"
      using process_file_None[of env f st] by auto
    then show ?thesis using Some Cons.IH[of st1] by simp
  qed
qed

lemma process_all_Cons:
  assumes "process_all env (f # fs) st = Some st'"
  obtains st1 where "process_file env f st = Some st1" "process_all env fs st1 = Some st'"
  using assms by (auto split: option.splits)

lemma process_all_index:
  "process_all env fs st = Some st' \<Longrightarrow>
     indexData st' = indexData st @ map (entry_of env) (filter (succeeds env) fs)"
proof (induction fs arbitrary: st)
  case Nil
  then show ?case by simp
next
  case (Cons f fs)
  from Cons.prems obtain st1 where
    s: "process_file env f st = Some st1" "process_all env fs st1 = Some st'"
    by (rule process_all_Cons)
  show ?case
    using process_file_Some(1)[OF s(1)] Cons.IH[OF s(2)] by simp
qed

lemma process_all_dom:
  "process_all env fs st = Some st' \<Longrightarrow> dom (disk st) \<subseteq> dom (disk st')"
proof (induction fs arbitrary: st)
  case Nil
  then show ?case by simp
next
  case (Cons f fs)
  from Cons.prems obtain st1 where
    s: "process_file env f st = Some st1" "process_all env fs st1 = Some st'"
    by (rule process_all_Cons)
  show ?case
    using process_file_Some(2)[OF s(1)] Cons.IH[OF s(2)] by blast
qed

lemma process_all_trace:
  "process_all env fs st = Some st' \<Longrightarrow>
     processed (trace st') = processed (trace st) @ fs
   \<and> caught (trace st') = caught (trace st) @ filter (throws env) fs"
proof (induction fs arbitrary: st)
  case Nil
  then show ?case by simp
next
  case (Cons f fs)
  from Cons.prems obtain st1 where
    s: "process_file env f st = Some st1" "process_all env fs st1 = Some st'"
    by (rule process_all_Cons)
  show ?case
    using process_file_Some(3,5)[OF s(1)] Cons.IH[OF s(2)] by simp
qed

lemma process_all_variants:
  "process_all env fs st = Some st' \<Longrightarrow> f \<in> set fs \<Longrightarrow> succeeds env f \<Longrightarrow>
     p \<in> set (variant_files f) \<Longrightarrow> p \<in> dom (disk st')"
proof (induction fs arbitrary: st)
  case Nil
  then show ?case by simp
next
  case (Cons g fs)
  from Cons.prems(1) obtain st1 where
    s: "process_file env g st = Some st1" "process_all env fs st1 = Some st'"
    by (rule process_all_Cons)
  show ?case
  proof (cases "f = g")
    case True
    then have "p \<in> dom (disk st1)"
      using process_file_Some(4)[OF s(1)] Cons.prems(3,4) by auto
    then show ?thesis
      using process_all_dom[OF s(2)] by blast
  next
    case False
    then show ?thesis
      using Cons.IH[OF s(2)] Cons.prems(2,3,4) by simp
  qed
qed

subsection \<open>The run\<close>

lemma set_orderedFiles: "set (orderedFiles files) = set files"
  by (auto simp: orderedFiles_def statics_def gifs_def)

lemma orderedFiles_by_kind:
  "orderedFiles files =
     filter (\<lambda>f. classify f = Static) files @ filter (\<lambda>f. classify f = Animated) files"
  by (simp add: orderedFiles_def statics_def gifs_def classify_def is_gif_def)

lemma length_filter_orderedFiles:
  "length (filter P (orderedFiles files)) = length (filter P files)"
  unfolding orderedFiles_def statics_def gifs_def
  by (induction files) auto

lemma startup_cases:
  "startup env disk0 =
     (if returns env ''ffmpeg'' [''-version'']
      then Some (None,
             (if ffmpeg_ok env [''-version'']
              then log Info (''FFmpeg detected: '' @
                     first_line (case spawn env ''ffmpeg'' [''-version''] of
                                   Exits ms c out err \<Rightarrow> out | _ \<Rightarrow> []))
              else log Error ''FFmpeg not found in PATH. GIF -> WebM conversion will fail.'')
               (emit (Spawned ''ffmpeg'' [''-version''])
                  \<lparr>disk = disk0, indexData = [], trace = [Mkdir outDir, Mkdir thumbDir]\<rparr>))
      else None)"
  by (simp add: startup_def runCmd_cases returns_def ffmpeg_ok_def split: proc.splits)

lemma startup_Some:
  assumes "startup env disk0 = Some (x, st)"
  shows "x = None" "disk st = disk0" "indexData st = []" "processed (trace st) = []"
    "written_files (trace st) = []" "returns env ''ffmpeg'' [''-version'']"
    "caught (trace st) = []"
    "made_dirs (trace st) = [outDir, thumbDir]"
    "encoder_calls (trace st) = [[''-version'']]"
  using assms by (auto simp: startup_cases split: if_splits)

lemma startup_None: "startup env disk0 = None \<longleftrightarrow> \<not> returns env ''ffmpeg'' [''-version'']"
  by (simp add: startup_cases)



lemma main_nonempty:
  assumes "returns env ''ffmpeg'' [''-version'']" "list_all (terminates env) files" "files \<noteq> []"
  shows "\<exists>st. main env files disk0 = Some \<lparr>ending = Finished, final_state = st\<rparr>
           \<and> indexData st = map (entry_of env) (filter (succeeds env) (orderedFiles files))
           \<and> disk st indexFile = Some (ManifestJson (indexData st))
           \<and> processed (trace st) = orderedFiles files
           \<and> caught (trace st) = filter (throws env) (orderedFiles files)"
proof -
  obtain x st1 where s: "startup env disk0 = Some (x, st1)"
    using assms(1) startup_None[of env disk0] by (cases "startup env disk0") auto
  note a = startup_Some[OF s]
  let ?st1 = "log Info ''Found files to process.'' st1"
  have "list_all (terminates env) (orderedFiles files)"
    using assms(2) by (simp add: list_all_iff set_orderedFiles)
  then obtain st2 where p: "process_all env (orderedFiles files) ?st1 = Some st2"
    using process_all_None[of env "orderedFiles files" ?st1] by auto
  let ?st = "log Info ''Done! Items written to index.json''
               (put_file indexFile (ManifestJson (indexData st2)) (emit (WriteFile indexFile) st2))"
  have m: "main env files disk0 = Some \<lparr>ending = Finished, final_state = ?st\<rparr>"
    using s a(1) p assms(3) by (simp add: main_def)
  have "indexData ?st = map (entry_of env) (filter (succeeds env) (orderedFiles files))"
    using process_all_index[OF p] a by simp
  moreover have "disk ?st indexFile = Some (ManifestJson (indexData ?st))"
    by simp
  moreover have "processed (trace ?st) = orderedFiles files"
    using process_all_trace[OF p] a by simp
  moreover have "caught (trace ?st) = filter (throws env) (orderedFiles files)"
    using process_all_trace[OF p] a by simp
  ultimately show ?thesis using m by blast
qed

lemma main_Some:
  assumes "main env files disk0 = Some r"
  shows "indexData (final_state r) =
           (if files = [] then [] else map (entry_of env) (filter (succeeds env) (orderedFiles files)))"
    and "f \<in> set files \<Longrightarrow> succeeds env f \<Longrightarrow> p \<in> set (variant_files f) \<Longrightarrow>
           p \<in> dom (disk (final_state r))"
proof -
  obtain x st1 where s: "startup env disk0 = Some (x, st1)"
    using assms by (cases "startup env disk0") (auto simp: main_def)
  note a = startup_Some[OF s]
  show "indexData (final_state r) =
           (if files = [] then [] else map (entry_of env) (filter (succeeds env) (orderedFiles files)))"
  proof (cases "files = []")
    case True
    then show ?thesis using assms s a by (auto simp: main_def)
  next
    case False
    then obtain st2 where p: "process_all env (orderedFiles files)
                                (log Info ''Found files to process.'' st1) = Some st2"
      using assms s a(1) by (auto simp: main_def split: option.splits)
    then have "final_state r = log Info ''Done! Items written to index.json''
               (put_file indexFile (ManifestJson (indexData st2)) (emit (WriteFile indexFile) st2))"
      using assms s a(1) False by (auto simp: main_def)
    then show ?thesis
      using process_all_index[OF p] a False by simp
  qed
  show "p \<in> dom (disk (final_state r))"
    if "f \<in> set files" "succeeds env f" "p \<in> set (variant_files f)"
  proof -
    have ne: "files \<noteq> []" using that(1) by auto
    then obtain st2 where p: "process_all env (orderedFiles files)
                                (log Info ''Found files to process.'' st1) = Some st2"
      using assms s a(1) by (auto simp: main_def split: option.splits)
    then have "final_state r = log Info ''Done! Items written to index.json''
               (put_file indexFile (ManifestJson (indexData st2)) (emit (WriteFile indexFile) st2))"
      using assms s a(1) ne by (auto simp: main_def)
    moreover have "p \<in> dom (disk st2)"
      using process_all_variants[OF p _ that(2,3)] that(1) by (simp add: set_orderedFiles)
    ultimately show ?thesis by auto
  qed
qed

section \<open>A concrete run\<close>

lemmas path_eval =
  is_gif_def extname_def last_component_def toLowerCase_def lower_char_def slash_def dot_def
  base_of_def basename_suffix_def ends_with_def path_join_def outDir_def thumbDir_def
  optimizedWebM_def thumbWebM_def optimizedWebP_def optimizedJPG_def thumbWebP_def thumbJPG_def

lemma demo_returns: "returns (env_of demo_spawn) ''ffmpeg'' [''-version'']"
  by (simp add: returns_def env_of_def demo_spawn_def)

lemma demo_gif [simp]:
  "is_gif ''images/broken.gif''" "is_gif ''images/party.gif''"
  "\<not> is_gif ''images/2022-05-01_cat.png''"
  by (simp_all add: path_eval)

lemma demo_spawn_encode:
  "spawn (env_of demo_spawn) ''ffmpeg'' (vp9_args f outp) =
     (if f = ''images/broken.gif'' then Exits 300 1 [] ''Invalid data found'' else Exits 4000 0 [] [])"
  "spawn (env_of demo_spawn) ''ffmpeg'' (vp8_args f outp) =
     (if f = ''images/broken.gif'' then Exits 300 1 [] ''Invalid data found'' else Exits 4000 0 [] [])"
  "spawn (env_of demo_spawn) ''ffmpeg'' (thumb_args f outp) =
     (if f = ''images/broken.gif'' then Exits 300 1 [] ''Invalid data found'' else Exits 4000 0 [] [])"
  by (simp_all add: env_of_def demo_spawn_def vp9_args_def vp8_args_def thumb_args_def eval_nat_numeral)

lemma demo_terminates: "list_all (terminates (env_of demo_spawn)) demo_files"
  by (simp add: demo_files_def terminates_def returns_def ffmpeg_ok_def full_ok_def demo_spawn_encode)

lemma demo_succeeds:
  "\<not> succeeds (env_of demo_spawn) ''images/broken.gif''"
  "succeeds (env_of demo_spawn) ''images/party.gif''"
  "succeeds (env_of demo_spawn) ''images/2022-05-01_cat.png''"
  by (simp_all add: succeeds_def full_ok_def ffmpeg_ok_def demo_spawn_encode static_ok_def)
     (simp add: env_of_def)

lemma demo_ordered:
  "orderedFiles demo_files =
     [''images/2022-05-01_cat.png'', ''images/broken.gif'', ''images/party.gif'']"
  using demo_gif by (simp add: orderedFiles_def statics_def gifs_def demo_files_def is_gif_def)

section \<open>The batch\<close>

text \<open>
  Isolation of the failures that return. When every encoder call the run makes returns, a
  run over a non-empty batch finishes and writes the manifest: every file of the batch is
  taken up, in order; every file whose \<open>try\<close> block throws is caught at that file and
  logged; and the manifest has exactly one entry for each file whose encodes all succeed,
  whatever happens to the others.
\<close>

theorem failures_are_isolated:
  assumes "returns env ''ffmpeg'' [''-version'']"
    and "list_all (terminates env) files" and "files \<noteq> []"
  shows "\<exists>st. main env files disk0 = Some \<lparr>ending = Finished, final_state = st\<rparr>
           \<and> processed (trace st) = orderedFiles files
           \<and> caught (trace st) = filter (throws env) (orderedFiles files)
           \<and> indexData st = map (entry_of env) (filter (succeeds env) (orderedFiles files))
           \<and> length (indexData st) = length (filter (succeeds env) files)
           \<and> (\<forall>pre bad post.
                 files = pre @ bad # post \<and> \<not> succeeds env bad
                 \<and> list_all (succeeds env) (pre @ post) \<longrightarrow>
                 length (indexData st) = length (pre @ post))
           \<and> disk st indexFile = Some (ManifestJson (indexData st))"
proof -
  obtain st where st: "main env files disk0 = Some \<lparr>ending = Finished, final_state = st\<rparr>"
    "indexData st = map (entry_of env) (filter (succeeds env) (orderedFiles files))"
    "disk st indexFile = Some (ManifestJson (indexData st))"
    "processed (trace st) = orderedFiles files"
    "caught (trace st) = filter (throws env) (orderedFiles files)"
    using main_nonempty[OF assms, of disk0] by blast
  have len: "length (indexData st) = length (filter (succeeds env) files)"
    using st(2) by (simp add: length_filter_orderedFiles)
  have one: "length (indexData st) = length (pre @ post)"
    if "files = pre @ bad # post \<and> \<not> succeeds env bad \<and> list_all (succeeds env) (pre @ post)"
    for pre bad post
  proof -
    have "filter (succeeds env) pre = pre" "filter (succeeds env) post = post"
      using that by (simp_all add: list_all_iff)
    then show ?thesis
      using that len by simp
  qed
  show ?thesis
    using st len one by blast
qed

theorem failures_are_isolated_witness:
  "\<exists>st. main (env_of demo_spawn) demo_files Map.empty = Some \<lparr>ending = Finished, final_state = st\<rparr>
      \<and> processed (trace st) =
          [''images/2022-05-01_cat.png'', ''images/broken.gif'', ''images/party.gif'']
      \<and> length (indexData st) = 2
      \<and> map original (indexData st) = [''images/2022-05-01_cat.png'', ''images/party.gif'']"
proof -
  have ne: "demo_files \<noteq> []" by (simp add: demo_files_def)
  obtain st where st:
    "main (env_of demo_spawn) demo_files Map.empty = Some \<lparr>ending = Finished, final_state = st\<rparr>"
    "processed (trace st) = orderedFiles demo_files"
    "indexData st = map (entry_of (env_of demo_spawn))
                      (filter (succeeds (env_of demo_spawn)) (orderedFiles demo_files))"
    using failures_are_isolated[OF demo_returns demo_terminates ne, of Map.empty] by blast
  have "map original (indexData st) = [''images/2022-05-01_cat.png'', ''images/party.gif'']"
    using st(3) demo_succeeds
    by (simp add: demo_ordered entry_of_def gif_entry_def static_entry_def portable_def
        replace_backslashes_def env_of_def)
  then show ?thesis
    using st(1,2) demo_ordered length_map[of original "indexData st"] by auto
qed


text \<open>
  Claim C3. One unencodable file can stop the batch: since \<open>runCmd\<close> drops the time budget,
  a GIF whose encode never exits is waited for without end. In a batch of one static
  image whose four encodes succeed and one such GIF, the image is processed first, but
  the run never ends, and no manifest with the one entry is written.
\<close>

theorem hung_encode_stalls_batch:
  "main (env_of stuck_spawn) [''images/ok.png'', ''images/a.gif''] Map.empty = None
   \<and> succeeds (env_of stuck_spawn) ''images/ok.png''
   \<and> \<not> succeeds (env_of stuck_spawn) ''images/a.gif''
   \<and> orderedFiles [''images/ok.png'', ''images/a.gif''] = [''images/ok.png'', ''images/a.gif'']
   \<and> length (filter (succeeds (env_of stuck_spawn)) [''images/ok.png'', ''images/a.gif'']) = 1"
proof -
  let ?env = "env_of stuck_spawn"
  have g: "is_gif ''images/a.gif''" "\<not> is_gif ''images/ok.png''"
    by (simp_all add: path_eval)
  have w: "optimizedWebM ''images/a.gif'' = ''images-optimized/a.webm''"
    by (simp add: path_eval)
  have s: "spawn ?env ''ffmpeg'' (vp9_args ''images/a.gif'' ''images-optimized/a.webm'') = Hangs [] []"
    "spawn ?env ''ffmpeg'' (vp8_args ''images/a.gif'' ''images-optimized/a.webm'') = Hangs [] []"
    by (simp_all add: env_of_def stuck_spawn_def vp9_args_def vp8_args_def)
  have ok: "succeeds ?env ''images/ok.png''"
    using g(2) by (simp add: succeeds_def static_ok_def env_of_def)
  have bad: "\<not> succeeds ?env ''images/a.gif''"
    using g(1) by (simp add: succeeds_def full_ok_def ffmpeg_ok_def w s)
  have "\<not> terminates ?env ''images/a.gif''"
    using g(1) by (simp add: terminates_def returns_def w s)
  then have "\<not> list_all (terminates ?env) [''images/ok.png'', ''images/a.gif'']"
    by simp
  moreover have o: "orderedFiles [''images/ok.png'', ''images/a.gif'']
                      = [''images/ok.png'', ''images/a.gif'']"
    using g by (simp add: orderedFiles_def statics_def gifs_def is_gif_def)
  ultimately have "process_all ?env (orderedFiles [''images/ok.png'', ''images/a.gif'']) st = None"
    for st
    using process_all_None[of ?env "[''images/ok.png'', ''images/a.gif'']" st] by simp
  then have "main ?env [''images/ok.png'', ''images/a.gif''] Map.empty = None"
    by (auto simp: main_def split: option.splits dest: startup_Some(1))
  then show ?thesis
    using ok bad o by simp
qed

lemma original_entry_of: "original (entry_of env f) = portable env f"
  by (simp add: entry_of_def gif_entry_def static_entry_def)

lemma referenced_entry_of: "referenced (entry_of env f) = map (portable env) (variant_files f)"
  by (simp add: referenced_def entry_of_def gif_entry_def static_entry_def variant_files_def
      optimizedWebM_def thumbWebM_def optimizedWebP_def optimizedJPG_def thumbWebP_def thumbJPG_def)

text \<open>
  Claim C6. When no encoder call hangs, the files of a non-empty batch are taken up with
  all static files first and all GIFs after them, each group in the order of discovery;
  and the \<open>original\<close> paths of the manifest are, in that same order, those of the files
  whose encodes all succeed.
\<close>

theorem static_before_animated:
  assumes "returns env ''ffmpeg'' [''-version'']"
    and "list_all (terminates env) files" and "files \<noteq> []"
  shows "\<exists>st. main env files disk0 = Some \<lparr>ending = Finished, final_state = st\<rparr>
           \<and> processed (trace st) =
               filter (\<lambda>f. classify f = Static) files @ filter (\<lambda>f. classify f = Animated) files
           \<and> map original (indexData st) =
               map (portable env) (filter (succeeds env)
                 (filter (\<lambda>f. classify f = Static) files @ filter (\<lambda>f. classify f = Animated) files))"
proof -
  obtain st where st: "main env files disk0 = Some \<lparr>ending = Finished, final_state = st\<rparr>"
    "indexData st = map (entry_of env) (filter (succeeds env) (orderedFiles files))"
    "processed (trace st) = orderedFiles files"
    using main_nonempty[OF assms, of disk0] by blast
  have "map original (indexData st) = map (portable env) (filter (succeeds env) (orderedFiles files))"
    using st(2) by (simp add: original_entry_of)
  then show ?thesis
    using st(1,3) by (auto simp: orderedFiles_by_kind)
qed

theorem static_before_animated_witness:
  "\<exists>st. main (env_of demo_spawn) demo_files Map.empty = Some \<lparr>ending = Finished, final_state = st\<rparr>
      \<and> processed (trace st) =
          [''images/2022-05-01_cat.png'', ''images/broken.gif'', ''images/party.gif'']
      \<and> map original (indexData st) = [''images/2022-05-01_cat.png'', ''images/party.gif'']"
proof -
  have ne: "demo_files \<noteq> []" by (simp add: demo_files_def)
  have k: "filter (\<lambda>f. classify f = Static) demo_files @ filter (\<lambda>f. classify f = Animated) demo_files
        = [''images/2022-05-01_cat.png'', ''images/broken.gif'', ''images/party.gif'']"
    using demo_ordered by (simp add: orderedFiles_by_kind)
  show ?thesis
    using static_before_animated[OF demo_returns demo_terminates ne, of Map.empty]
      demo_succeeds
    unfolding k
    by (auto simp: portable_def replace_backslashes_def env_of_def)
qed

text \<open>
  Claim C2. Every entry of the manifest of a run is the entry of a discovered file whose
  encodes all reported success (for a GIF the full encode, by the first or the second
  profile, and the thumbnail encode; for a static image the four encodes), it references
  the portable forms of that file's variant paths, and each of these files is on disk at
  the end of the run. And an iteration of the loop appends an entry only in a state whose
  disk already holds each of these variants, written from the file of that iteration.
\<close>

theorem entry_only_after_variants_written:
  assumes "main env files disk0 = Some r" and "e \<in> set (indexData (final_state r))"
  shows "(\<exists>f\<in>set files. e = entry_of env f \<and> succeeds env f
            \<and> referenced e = map (portable env) (variant_files f)
            \<and> list_all (\<lambda>p. p \<in> dom (disk (final_state r))) (variant_files f))
       \<and> (\<forall>f st st'. process_file env f st = Some st' \<and> indexData st' \<noteq> indexData st \<longrightarrow>
            succeeds env f \<and> indexData st' = indexData st @ [entry_of env f]
            \<and> list_all (\<lambda>p. \<exists>c. disk st' p = Some c \<and> produced_from f c) (variant_files f))"
proof
  have "files \<noteq> []"
    using assms main_Some(1)[OF assms(1)] by auto
  then have "e \<in> set (map (entry_of env) (filter (succeeds env) (orderedFiles files)))"
    using assms(2) main_Some(1)[OF assms(1)] by simp
  then obtain f where f: "f \<in> set files" "succeeds env f" "e = entry_of env f"
    by (auto simp: set_orderedFiles)
  have "list_all (\<lambda>p. p \<in> dom (disk (final_state r))) (variant_files f)"
    using main_Some(2)[OF assms(1) f(1,2)] by (simp add: list_all_iff)
  then show "\<exists>f\<in>set files. e = entry_of env f \<and> succeeds env f
            \<and> referenced e = map (portable env) (variant_files f)
            \<and> list_all (\<lambda>p. p \<in> dom (disk (final_state r))) (variant_files f)"
    using f referenced_entry_of by blast
next
  show "\<forall>f st st'. process_file env f st = Some st' \<and> indexData st' \<noteq> indexData st \<longrightarrow>
            succeeds env f \<and> indexData st' = indexData st @ [entry_of env f]
            \<and> list_all (\<lambda>p. \<exists>c. disk st' p = Some c \<and> produced_from f c) (variant_files f)"
  proof (intro allI impI)
    fix f st st'
    assume a: "process_file env f st = Some st' \<and> indexData st' \<noteq> indexData st"
    then have p: "process_file env f st = Some st'" by simp
    have s: "succeeds env f"
      using a process_file_Some(1)[OF p] by (auto split: if_splits)
    then show "succeeds env f \<and> indexData st' = indexData st @ [entry_of env f]
            \<and> list_all (\<lambda>p. \<exists>c. disk st' p = Some c \<and> produced_from f c) (variant_files f)"
      using process_file_Some(1,4)[OF p] by (simp add: list_all_iff)
  qed
qed

theorem entry_only_after_variants_written_witness:
  "\<exists>r. main (env_of demo_spawn) demo_files Map.empty = Some r
      \<and> entry_of (env_of demo_spawn) ''images/party.gif'' \<in> set (indexData (final_state r))
      \<and> succeeds (env_of demo_spawn) ''images/party.gif''
      \<and> referenced (entry_of (env_of demo_spawn) ''images/party.gif'') =
          [''images-optimized/party.webm'', ''images-thumbs/party.webm'']
      \<and> list_all (\<lambda>p. p \<in> dom (disk (final_state r)))
          [''images-optimized/party.webm'', ''images-thumbs/party.webm'']"
proof -
  have ne: "demo_files \<noteq> []" by (simp add: demo_files_def)
  obtain st where st:
    "main (env_of demo_spawn) demo_files Map.empty = Some \<lparr>ending = Finished, final_state = st\<rparr>"
    "indexData st = map (entry_of (env_of demo_spawn))
                      (filter (succeeds (env_of demo_spawn)) (orderedFiles demo_files))"
    using main_nonempty[OF demo_returns demo_terminates ne, of Map.empty] by blast
  let ?r = "\<lparr>ending = Finished, final_state = st\<rparr>"
  let ?e = "entry_of (env_of demo_spawn) ''images/party.gif''"
  have v: "variant_files ''images/party.gif'' =
             [''images-optimized/party.webm'', ''images-thumbs/party.webm'']"
    by (simp add: variant_files_def path_eval)
  have ref: "referenced ?e = [''images-optimized/party.webm'', ''images-thumbs/party.webm'']"
    unfolding referenced_entry_of v
    by (simp add: portable_def replace_backslashes_def env_of_def)
  have mem: "?e \<in> set (indexData (final_state ?r))"
    using st(2) demo_succeeds by (simp add: demo_ordered)
  obtain f where f: "f \<in> set demo_files" "?e = entry_of (env_of demo_spawn) f"
    "succeeds (env_of demo_spawn) f"
    "list_all (\<lambda>p. p \<in> dom (disk (final_state ?r))) (variant_files f)"
    using entry_only_after_variants_written[OF st(1) mem] by blast
  have o1: "original ?e = ''images/party.gif''"
    by (simp add: original_entry_of portable_def replace_backslashes_def env_of_def)
  have o2: "original (entry_of (env_of demo_spawn) f) = f"
    using f(1)
    by (auto simp: original_entry_of portable_def replace_backslashes_def env_of_def demo_files_def)
  have "original ?e = original (entry_of (env_of demo_spawn) f)"
    using f(2) by (rule arg_cong)
  then have feq: "''images/party.gif'' = f"
    unfolding o1 o2 .
  have "succeeds (env_of demo_spawn) ''images/party.gif''"
    using f(3) unfolding feq[symmetric] .
  moreover have "list_all (\<lambda>p. p \<in> dom (disk (final_state ?r)))
          [''images-optimized/party.webm'', ''images-thumbs/party.webm'']"
    using f(4) unfolding feq[symmetric] v .
  ultimately show ?thesis
    using st(1) mem ref by blast
qed




text \<open>
  Claim C9. With the options the script passes for the full tier (width 1600, no
  enlargement), the width of the result is the smaller of the source width and 1600, so
  never more than the source width; a source no wider than 1600 keeps its size; and the
  height of a narrowed image is the source height scaled like the width, to the nearest
  pixel.
\<close>

theorem full_tier_never_upscales:
  assumes "0 < w"
  shows "fst (full_tier_size (w, h)) = min w 1600
       \<and> fst (full_tier_size (w, h)) \<le> w
       \<and> (w \<le> 1600 \<longrightarrow> full_tier_size (w, h) = (w, h))
       \<and> 2 * \<bar>int (snd (full_tier_size (w, h))) * int w
               - int h * int (fst (full_tier_size (w, h)))\<bar> \<le> int w"
proof (cases "w \<le> 1600")
  case True
  then show ?thesis
    by (simp add: full_tier_size_def sharp_resize_def full_resize_def)
next
  case False
  let ?q = "(h * 1600 + w div 2) div w"
  have r: "full_tier_size (w, h) = (1600, ?q)"
    using False by (simp add: full_tier_size_def sharp_resize_def full_resize_def)
  have lo: "?q * w \<le> h * 1600 + w div 2"
    by simp
  have hi: "h * 1600 + w div 2 < ?q * w + w"
    using assms by (metis add.commute div_mult_mod_eq mod_less_divisor nat_add_left_cancel_less mult.commute)
  define A where "A = int ?q * int w"
  define B where "B = int h * 1600"
  define K where "K = int (w div 2)"
  define W where "W = int w"
  have a: "A \<le> B + K"
    using lo unfolding A_def B_def K_def
    by (metis (no_types, opaque_lifting) of_nat_add of_nat_mult of_nat_numeral of_nat_le_iff)
  have b: "B + K < A + W"
    using hi unfolding A_def B_def K_def W_def
    by (metis (no_types, opaque_lifting) of_nat_add of_nat_mult of_nat_numeral of_nat_less_iff)
  have c: "2 * K \<le> W" "W \<le> 2 * K + 1"
    unfolding K_def W_def by linarith+
  have "2 * \<bar>A - B\<bar> \<le> W"
    using a b c by presburger
  then have "2 * \<bar>int ?q * int w - int h * 1600\<bar> \<le> int w"
    unfolding A_def B_def W_def .
  then show ?thesis
    using False r by simp
qed

theorem full_tier_never_upscales_witness:
  "fst (full_tier_size (200, 150)) = 200 \<and> full_tier_size (200, 150) = (200, 150)
   \<and> full_tier_size (3200, 1001) = (1600, 501)"
proof -
  have "fst (full_tier_size (200, 150)) = 200 \<and> full_tier_size (200, 150) = (200, 150)"
    using full_tier_never_upscales[of 200 150] by simp
  moreover have "full_tier_size (3200, 1001) = (1600, 501)"
    by (simp add: full_tier_size_def sharp_resize_def full_resize_def)
  ultimately show ?thesis by simp
qed

section \<open>Output names\<close>

lemma base_of_lower:
  assumes "name \<noteq> []" "slash \<notin> set name"
    and "e \<noteq> []" "slash \<notin> set e" "dot \<notin> set e" "toLowerCase e = e"
  shows "base_of (d @ slash # name @ dot # e) = name"
proof -
  let ?p = "d @ slash # name @ dot # e"
  have x: "toLowerCase (extname ?p) = dot # e"
    using extname_file[OF assms(1,2,4,5), of d] assms(3,6) lower_dot
    by (simp add: toLowerCase_simps)
  have c: "last_component (d @ slash # (name @ dot # e)) = name @ dot # e"
    using assms by (intro last_component_file) (auto simp: slash_def dot_def)
  have "basename_suffix ?p (dot # e) = name"
    using c assms(1) by (simp add: basename_suffix_def ends_with_def)
  then show ?thesis
    by (simp add: base_of_def x)
qed

lemma same_base_same_variants:
  assumes "base_of f1 = base_of f2" "is_gif f1 = is_gif f2"
  shows "variant_files f1 = variant_files f2"
    and "optimized (entry_of env f1) = optimized (entry_of env f2)"
    and "thumbnail (entry_of env f1) = thumbnail (entry_of env f2)"
  using assms
  by (simp_all add: variant_files_def entry_of_def gif_entry_def static_entry_def
      optimizedWebM_def thumbWebM_def optimizedWebP_def optimizedJPG_def thumbWebP_def thumbJPG_def)

text \<open>
  Claim C10, as amended. Two source files of the same kind, \<open>d1/name.e1\<close> and
  \<open>d2/name.e2\<close>, with the same file name up to the extension and extensions written in
  lower case, have the same variant paths: their entries reference the same variant
  files, and an iteration that succeeds on the second leaves, at each variant path of the
  first, a file written from the second.
\<close>

theorem same_stem_same_outputs:
  assumes "name \<noteq> []" "slash \<notin> set name"
    and "e1 \<noteq> []" "slash \<notin> set e1" "dot \<notin> set e1" "toLowerCase e1 = e1"
    and "e2 \<noteq> []" "slash \<notin> set e2" "dot \<notin> set e2" "toLowerCase e2 = e2"
    and "f1 = d1 @ slash # name @ dot # e1" "f2 = d2 @ slash # name @ dot # e2"
    and "classify f1 = classify f2"
  shows "base_of f1 = name \<and> base_of f2 = name
       \<and> variant_files f1 = variant_files f2
       \<and> optimized (entry_of env f1) = optimized (entry_of env f2)
       \<and> thumbnail (entry_of env f1) = thumbnail (entry_of env f2)
       \<and> (\<forall>st st'. process_file env f2 st = Some st' \<and> succeeds env f2 \<longrightarrow>
            list_all (\<lambda>p. \<exists>c. disk st' p = Some c \<and> produced_from f2 c) (variant_files f1))"
proof -
  have b1: "base_of f1 = name"
    using base_of_lower[OF assms(1,2,3,4,5,6), of d1] assms(11) by simp
  have b2: "base_of f2 = name"
    using base_of_lower[OF assms(1,2,7,8,9,10), of d2] assms(12) by simp
  have k: "is_gif f1 = is_gif f2"
    using assms(13) by (simp add: classify_def split: if_splits)
  have b: "base_of f1 = base_of f2"
    using b1 b2 by simp
  note v = same_base_same_variants[OF b k]
  have "list_all (\<lambda>p. \<exists>c. disk st' p = Some c \<and> produced_from f2 c) (variant_files f1)"
    if "process_file env f2 st = Some st' \<and> succeeds env f2" for st st'
    using that process_file_Some(4)[of env f2 st st'] v(1) by (simp add: list_all_iff)
  then show ?thesis
    using b1 b2 v by blast
qed

theorem same_stem_same_outputs_witness:
  "variant_files ''images/a/x.png'' = variant_files ''images/b/x.jpg''
   \<and> variant_files ''images/b/x.jpg'' =
       [''images-optimized/x.webp'', ''images-optimized/x.jpg'',
        ''images-thumbs/x.webp'', ''images-thumbs/x.jpg'']
   \<and> (\<exists>st. process_all (env_of demo_spawn) [''images/a/x.png'', ''images/b/x.jpg''] st_init = Some st
        \<and> list_all (\<lambda>p. \<exists>c. disk st p = Some c \<and> produced_from ''images/b/x.jpg'' c)
             (variant_files ''images/a/x.png'')
        \<and> map optimized (indexData st) =
             [WebpJpg ''images-optimized/x.webp'' ''images-optimized/x.jpg'',
              WebpJpg ''images-optimized/x.webp'' ''images-optimized/x.jpg''])"
proof -
  let ?env = "env_of demo_spawn"
  let ?f1 = "''images/a/x.png''" and ?f2 = "''images/b/x.jpg''"
  have g: "\<not> is_gif ?f1" "\<not> is_gif ?f2"
    by (simp_all add: path_eval)
  have ok: "succeeds ?env ?f1" "succeeds ?env ?f2"
    using g by (simp_all add: succeeds_def static_ok_def env_of_def)
  have t: "list_all (terminates ?env) [?f1, ?f2]"
    using g by (simp add: terminates_def)
  have c: "classify ?f1 = classify ?f2"
    using g by (simp add: classify_def)
  have low: "toLowerCase ''png'' = ''png''" "toLowerCase ''jpg'' = ''jpg''"
    by (simp_all add: toLowerCase_def lower_char_def)
  have th: "base_of ?f1 = ''x'' \<and> base_of ?f2 = ''x''
       \<and> variant_files ?f1 = variant_files ?f2
       \<and> optimized (entry_of ?env ?f1) = optimized (entry_of ?env ?f2)
       \<and> thumbnail (entry_of ?env ?f1) = thumbnail (entry_of ?env ?f2)
       \<and> (\<forall>st st'. process_file ?env ?f2 st = Some st' \<and> succeeds ?env ?f2 \<longrightarrow>
            list_all (\<lambda>p. \<exists>c. disk st' p = Some c \<and> produced_from ?f2 c) (variant_files ?f1))"
    by (rule same_stem_same_outputs[of "''x''" "''png''" "''jpg''" ?f1 "''images/a''" ?f2 "''images/b''" ?env])
       (simp_all add: slash_def dot_def c low)
  have v2: "variant_files ?f2 =
       [''images-optimized/x.webp'', ''images-optimized/x.jpg'',
        ''images-thumbs/x.webp'', ''images-thumbs/x.jpg'']"
    using th g(2)
    by (simp add: variant_files_def optimizedWebP_def optimizedJPG_def thumbWebP_def thumbJPG_def
        path_join_def outDir_def thumbDir_def slash_def)
  obtain st where st: "process_all ?env [?f1, ?f2] st_init = Some st"
    using process_all_None[of ?env "[?f1, ?f2]" st_init] t by auto
  then obtain st1 where s: "process_file ?env ?f1 st_init = Some st1"
    "process_file ?env ?f2 st1 = Some st"
    by (auto split: option.splits)
  have over: "list_all (\<lambda>p. \<exists>c. disk st p = Some c \<and> produced_from ?f2 c) (variant_files ?f1)"
    using th s(2) ok(2) by blast
  have "indexData st = [entry_of ?env ?f1, entry_of ?env ?f2]"
    using process_all_index[OF st] ok by (simp add: st_init_def)
  then have "map optimized (indexData st) =
       [optimized (entry_of ?env ?f2), optimized (entry_of ?env ?f2)]"
    using th by simp
  also have "optimized (entry_of ?env ?f2) =
       WebpJpg ''images-optimized/x.webp'' ''images-optimized/x.jpg''"
    using th g(2)
    by (simp add: entry_of_def static_entry_def portable_def replace_backslashes_def env_of_def
        path_join_def outDir_def slash_def)
  finally have m: "map optimized (indexData st) =
             [WebpJpg ''images-optimized/x.webp'' ''images-optimized/x.jpg'',
              WebpJpg ''images-optimized/x.webp'' ''images-optimized/x.jpg'']" .
  show ?thesis
    using th v2 st over m by auto
qed

theorem equal_stems_different_outputs:
  "variant_files ''images/x.JPG'' =
     [''images-optimized/x.JPG.webp'', ''images-optimized/x.JPG.jpg'',
      ''images-thumbs/x.JPG.webp'', ''images-thumbs/x.JPG.jpg'']
   \<and> variant_files ''images/x.png'' =
     [''images-optimized/x.webp'', ''images-optimized/x.jpg'',
      ''images-thumbs/x.webp'', ''images-thumbs/x.jpg'']
   \<and> variant_files ''images/x.gif'' = [''images-optimized/x.webm'', ''images-thumbs/x.webm'']
   \<and> variant_files ''images/x.JPG'' \<noteq> variant_files ''images/x.png''
   \<and> variant_files ''images/x.gif'' \<noteq> variant_files ''images/x.png''"
  by (simp add: variant_files_def path_eval)

section \<open>The encoder: time budget and fallback\<close>

text \<open>
  Claim C1. The budget is not enforced: \<open>runCmd\<close> does not read the options of its call,
  so an encode that never exits is waited for without end, where \<open>spawnSync\<close> with the
  timeout would have returned a failed result, and the run over such a GIF never ends; an
  encode that takes 200 seconds and exits with status 0 counts as a success.
\<close>

theorem runCmd_drops_timeout:
  "runCmd env cmd args extra = runCmd env cmd args None
   \<and> runCmd (env_of stuck_spawn) ''ffmpeg''
         (vp9_args ''images/a.gif'' ''images-optimized/a.webm'')
         (Some \<lparr>encoding = None, timeout = Some MAX_FFMPEG_MS\<rparr>) = None
   \<and> spawnSync (stuck_spawn ''ffmpeg'' (vp9_args ''images/a.gif'' ''images-optimized/a.webm''))
         \<lparr>encoding = Some ''utf8'', timeout = Some MAX_FFMPEG_MS\<rparr>
       = Some \<lparr>res_status = None, res_stdout = Some [], res_stderr = Some []\<rparr>
   \<and> main (env_of stuck_spawn) [''images/a.gif''] Map.empty = None
   \<and> map_option ok (runCmd (env_of slow_spawn) ''ffmpeg''
         (vp9_args ''images/a.gif'' ''images-optimized/a.webm'')
         (Some \<lparr>encoding = None, timeout = Some MAX_FFMPEG_MS\<rparr>)) = Some True
   \<and> map_option res_status
         (spawnSync (slow_spawn ''ffmpeg'' (vp9_args ''images/a.gif'' ''images-optimized/a.webm''))
            \<lparr>encoding = Some ''utf8'', timeout = Some MAX_FFMPEG_MS\<rparr>) = Some None"
proof -
  have a: "runCmd env cmd args extra = runCmd env cmd args None"
    by (simp add: runCmd_def)
  have s: "stuck_spawn ''ffmpeg'' (vp9_args ''images/a.gif'' ''images-optimized/a.webm'') = Hangs [] []"
    by (simp add: stuck_spawn_def vp9_args_def)
  have b: "runCmd (env_of stuck_spawn) ''ffmpeg''
         (vp9_args ''images/a.gif'' ''images-optimized/a.webm'')
         (Some \<lparr>encoding = None, timeout = Some MAX_FFMPEG_MS\<rparr>) = None"
    by (simp add: runCmd_cases env_of_def s)
  have c: "spawnSync (stuck_spawn ''ffmpeg'' (vp9_args ''images/a.gif'' ''images-optimized/a.webm''))
         \<lparr>encoding = Some ''utf8'', timeout = Some MAX_FFMPEG_MS\<rparr>
       = Some \<lparr>res_status = None, res_stdout = Some [], res_stderr = Some []\<rparr>"
    by (simp add: s spawnSync_def MAX_FFMPEG_MS_def)
  have g: "is_gif ''images/a.gif''" "base_of ''images/a.gif'' = ''a''"
    by (simp_all add: path_eval)
  have "\<not> terminates (env_of stuck_spawn) ''images/a.gif''"
    using g s
    by (simp add: terminates_def returns_def env_of_def optimizedWebM_def path_join_def
        outDir_def slash_def)
  then have "process_file (env_of stuck_spawn) ''images/a.gif'' st = None" for st
    by (simp add: process_file_None)
  then have "process_all (env_of stuck_spawn) (orderedFiles [''images/a.gif'']) st = None" for st
    using g(1) by (simp add: orderedFiles_def statics_def gifs_def is_gif_def)
  then have d: "main (env_of stuck_spawn) [''images/a.gif''] Map.empty = None"
    by (auto simp: main_def split: option.splits dest: startup_Some(1))
  have e: "map_option ok (runCmd (env_of slow_spawn) ''ffmpeg''
         (vp9_args ''images/a.gif'' ''images-optimized/a.webm'')
         (Some \<lparr>encoding = None, timeout = Some MAX_FFMPEG_MS\<rparr>)) = Some True"
    by (simp add: runCmd_cases env_of_def slow_spawn_def)
  have f: "map_option res_status
         (spawnSync (slow_spawn ''ffmpeg'' (vp9_args ''images/a.gif'' ''images-optimized/a.webm''))
            \<lparr>encoding = Some ''utf8'', timeout = Some MAX_FFMPEG_MS\<rparr>) = Some None"
    by (simp add: slow_spawn_def spawnSync_def MAX_FFMPEG_MS_def)
  show ?thesis
    using a b c d e f by blast
qed

text \<open>
  Claim C5. Where the encoder cannot be started, both attempts fail with a null
  \<open>stderr\<close>, the \<open>slice\<close> on it throws before the copy, and the original is not copied:
  after the run over \<open>images/a.gif\<close> there is no \<open>images-optimized/a.gif\<close>. The two
  attempts are made in order, no thumbnail is attempted and no entry is produced.
\<close>

theorem gif_fallback_copy_missed:
  "\<exists>st. main (env_of missing_spawn) [''images/a.gif''] Map.empty =
          Some \<lparr>ending = Finished, final_state = st\<rparr>
        \<and> disk st ''images-optimized/a.gif'' = None
        \<and> indexData st = []
        \<and> encoder_calls (trace st) =
            [[''-version''], vp9_args ''images/a.gif'' ''images-optimized/a.webm'',
             vp8_args ''images/a.gif'' ''images-optimized/a.webm'']
        \<and> Caught ''images/a.gif'' TypeError \<in> set (trace st)"
  by (simp add: main_def startup_def runCmd_def spawnSync_def env_of_def missing_spawn_def
      orderedFiles_def statics_def gifs_def toLowerCase_def lower_char_def extname_def
      last_component_def slash_def dot_def process_file_def try_block_def process_gif_def
      encode_full_def ffmpeg_def fallback_copy_def basename_suffix_def ends_with_def
      path_join_def outDir_def thumbDir_def indexFile_def Let_def emit_def log_def put_file_def
      MAX_FFMPEG_MS_def)

text \<open>
  Where both attempts exit with a failure status and the copy succeeds, the iteration
  makes exactly the two attempts, in order, copies the original next to the full-tier
  outputs, and pushes no entry.
\<close>

lemma fallback_copy_None:
  assumes "stderr r = Some e" "copy_ok env file (path_join outDir (base @ ''.gif''))"
  shows "fst (fallback_copy env file base r st) = None"
  using assms by (simp add: fallback_copy_def copyFileSync_def)

theorem gif_double_failure_copies:
  assumes "is_gif file"
    and "spawn env ''ffmpeg'' (vp9_args file (optimizedWebM file)) = Exits m9 c9 o9 e9" "c9 \<noteq> 0"
    and "spawn env ''ffmpeg'' (vp8_args file (optimizedWebM file)) = Exits m8 c8 o8 e8" "c8 \<noteq> 0"
    and "copy_ok env file (path_join outDir (base_of file @ ''.gif''))"
  shows "\<exists>st'. process_file env file st = Some st'
           \<and> encoder_calls (trace st') = encoder_calls (trace st) @
               [vp9_args file (optimizedWebM file), vp8_args file (optimizedWebM file)]
           \<and> disk st' (path_join outDir (base_of file @ ''.gif'')) = Some (CopyOf file)
           \<and> indexData st' = indexData st
           \<and> caught (trace st') = caught (trace st)"
proof -
  let ?st0 = "emit (Processing file) st"
  let ?st1 = "log Info ''Detected GIF. Converting to WebM...'' ?st0"
  have no9: "\<not> ffmpeg_ok env (vp9_args file (optimizedWebM file))"
    and no8: "\<not> ffmpeg_ok env (vp8_args file (optimizedWebM file))"
    using assms by (simp_all add: ffmpeg_ok_def)
  have "returns env ''ffmpeg'' (vp9_args file (optimizedWebM file))"
    "returns env ''ffmpeg'' (vp8_args file (optimizedWebM file))"
    using assms by (simp_all add: returns_def)
  then obtain r st2 where e: "encode_full env file (optimizedWebM file) ?st1 = Some (r, st2)"
    using encode_full_None[of env "file" "optimizedWebM file" ?st1]
    by (cases "encode_full env file (optimizedWebM file) ?st1") auto
  note a = encode_full_Some[OF e]
  have nok: "\<not> ok r" using a(1) no9 no8 by simp
  have err: "stderr r \<noteq> None"
    using a(8)[OF nok] assms(4) by simp
  then obtain e' where e': "stderr r = Some e'" by auto
  obtain x st3 where f: "fallback_copy env file (base_of file) r st2 = (x, st3)"
    by (cases "fallback_copy env file (base_of file) r st2")
  note b = fallback_copy_frame[OF f]
  have x: "x = None"
    using fallback_copy_None[OF e' assms(6), of st2] f by simp
  have "process_gif env file (base_of file) ?st0 = Some (x, st3)"
    using e f nok by (simp add: process_gif_def optimizedWebM_def)
  then have "try_block env file st = Some (None, st3)"
    using assms(1) x by (simp add: try_block_def is_gif_def base_of_def)
  then have p: "process_file env file st = Some st3"
    by (simp add: process_file_def)
  have "encoder_calls (trace st3) = encoder_calls (trace st) @
               [vp9_args file (optimizedWebM file), vp8_args file (optimizedWebM file)]"
    using a(5) b(4) no9 by simp
  moreover have "disk st3 (path_join outDir (base_of file @ ''.gif'')) = Some (CopyOf file)"
    using b(7)[OF x] .
  moreover have "indexData st3 = indexData st"
    using a(2) b(1) by simp
  moreover have "caught (trace st3) = caught (trace st)"
    using a(7) b(5) by simp
  ultimately show ?thesis using p by blast
qed

theorem gif_double_failure_copies_witness:
  "\<exists>st'. process_file (env_of demo_spawn) ''images/broken.gif'' st_init = Some st'
      \<and> encoder_calls (trace st') =
          [vp9_args ''images/broken.gif'' ''images-optimized/broken.webm'',
           vp8_args ''images/broken.gif'' ''images-optimized/broken.webm'']
      \<and> disk st' ''images-optimized/broken.gif'' = Some (CopyOf ''images/broken.gif'')
      \<and> indexData st' = []"
proof -
  have o: "optimizedWebM ''images/broken.gif'' = ''images-optimized/broken.webm''"
    "path_join outDir (base_of ''images/broken.gif'' @ ''.gif'') = ''images-optimized/broken.gif''"
    by (simp_all add: path_eval)
  have c: "copy_ok (env_of demo_spawn) ''images/broken.gif''
             (path_join outDir (base_of ''images/broken.gif'' @ ''.gif''))"
    by (simp add: env_of_def)
  have n: "(1::int) \<noteq> 0" by simp
  have "\<exists>st'. process_file (env_of demo_spawn) ''images/broken.gif'' st_init = Some st'
      \<and> encoder_calls (trace st') = encoder_calls (trace st_init) @
          [vp9_args ''images/broken.gif'' ''images-optimized/broken.webm'',
           vp8_args ''images/broken.gif'' ''images-optimized/broken.webm'']
      \<and> disk st' ''images-optimized/broken.gif'' = Some (CopyOf ''images/broken.gif'')
      \<and> indexData st' = indexData st_init
      \<and> caught (trace st') = caught (trace st_init)"
    using gif_double_failure_copies[OF demo_gif(1) _ n _ n c, of 300 "[]" "''Invalid data found''"
        300 "[]" "''Invalid data found''" st_init]
    by (simp add: demo_spawn_encode o)
  then show ?thesis
    by (auto simp: st_init_def)
qed

end
